theory Spec2Isabelle
  imports Complex_Main "HOL-Library.Sublist"
begin

section \<open>JavaScript strings and the regular expressions of the query filter\<close>

text \<open>
  A JavaScript string is a sequence of UTF-16 code units; a code unit is modelled as a
  natural number, and \<open>js\<close> embeds an ASCII literal.
\<close>

type_synonym jsstring = "nat list"

definition js :: "string \<Rightarrow> jsstring" where
  "js s = map of_char s"

text \<open>
  The character classes the patterns of \<open>isQuerySafe\<close> use. \<open>\s\<close> is ECMAScript's
  WhiteSpace and LineTerminator; \<open>.\<close> (without the \<open>s\<close> flag) is every code unit that is
  not a LineTerminator. Under the \<open>i\<close> flag (without \<open>u\<close>) two code units match when their
  canonical (upper-case) forms agree; a code unit from 128 on is never canonicalised to one
  below 128, so for the ASCII letters of these patterns only the ASCII folding matters.
\<close>

definition isWhiteSpace :: "nat \<Rightarrow> bool" where
  "isWhiteSpace c \<longleftrightarrow>
     c = 9 \<or> c = 10 \<or> c = 11 \<or> c = 12 \<or> c = 13 \<or> c = 32 \<or> c = 160 \<or> c = 5760 \<or>
     (8192 \<le> c \<and> c \<le> 8202) \<or> c = 8232 \<or> c = 8233 \<or> c = 8239 \<or> c = 8287 \<or>
     c = 12288 \<or> c = 65279"

definition isLineTerminator :: "nat \<Rightarrow> bool" where
  "isLineTerminator c \<longleftrightarrow> c = 10 \<or> c = 13 \<or> c = 8232 \<or> c = 8233"

definition canonicalize :: "nat \<Rightarrow> nat" where
  "canonicalize c = (if 97 \<le> c \<and> c \<le> 122 then c - 32 else c)"

datatype atom = Ch nat | Space | Dot

fun atom_ok :: "atom \<Rightarrow> nat \<Rightarrow> bool" where
  "atom_ok (Ch p) c = (canonicalize c = canonicalize p)"
| "atom_ok Space c = isWhiteSpace c"
| "atom_ok Dot c = (\<not> isLineTerminator c)"

text \<open>
  The pattern language: \<open>^\<close> (\<open>Bol\<close>), one atom, \<open>a*\<close>, \<open>a+\<close> and the negative lookahead
  \<open>(?!...)\<close>. A pattern is a list of pieces matched in sequence.
\<close>

datatype piece = Bol | One atom | Star atom | Plus atom | NotAhead "piece list"

definition lit :: "string \<Rightarrow> piece list" where
  "lit s = map (\<lambda>c. One (Ch (of_char c))) s"

text \<open>
  \<open>matches ps b s\<close>: the pattern \<open>ps\<close> matches some prefix of \<open>s\<close>; \<open>b\<close> says that \<open>s\<close> starts
  at index 0 of the input (where \<open>^\<close> holds, there being no \<open>m\<close> flag). A starred
  atom first tries to take one more code unit and falls back to the rest of the pattern.
  \<open>regex_test\<close> is \<open>RegExp.prototype.test\<close> for a regular expression without the \<open>g\<close> and
  \<open>y\<close> flags: a match may start at any index.
\<close>

fun matches :: "piece list \<Rightarrow> bool \<Rightarrow> jsstring \<Rightarrow> bool" where
  "matches [] b s = True"
| "matches (Bol # ps) b s = (if b then matches ps b s else False)"
| "matches (One a # ps) b [] = False"
| "matches (One a # ps) b (c # cs) = (if atom_ok a c then matches ps False cs else False)"
| "matches (Star a # ps) b [] = matches ps b []"
| "matches (Star a # ps) b (c # cs) =
     (if atom_ok a c
      then (if matches (Star a # ps) False cs then True else matches ps b (c # cs))
      else matches ps b (c # cs))"
| "matches (Plus a # ps) b [] = False"
| "matches (Plus a # ps) b (c # cs) =
     (if atom_ok a c then matches (Star a # ps) False cs else False)"
| "matches (NotAhead qs # ps) b s = (if matches qs b s then False else matches ps b s)"

fun search :: "piece list \<Rightarrow> jsstring \<Rightarrow> bool" where
  "search ps [] = matches ps False []"
| "search ps (c # cs) = (if matches ps False (c # cs) then True else search ps cs)"

definition regex_test :: "piece list \<Rightarrow> jsstring \<Rightarrow> bool" where
  "regex_test ps s =
     (if matches ps True s then True
      else (case s of [] \<Rightarrow> False | c # cs \<Rightarrow> search ps cs))"

section \<open>The admin server's query filter\<close>

definition dangerousPatterns :: "piece list list" where
  "dangerousPatterns =
    [ lit ''drop'' @ [Plus Space] @ lit ''table'',
      lit ''drop'' @ [Plus Space] @ lit ''database'',
      lit ''truncate'',
      lit ''alter'' @ [Plus Space] @ lit ''table'' @ [Star Dot] @ lit ''drop'',
      lit ''delete'' @ [Plus Space] @ lit ''from'' @
        [Plus Space, NotAhead ([Star Dot] @ lit ''where'')],
      lit ''update'' @ [Plus Space, Star Dot] @ lit ''set'' @
        [Plus Space, NotAhead ([Star Dot] @ lit ''where'')] ]"

definition allowedPatterns :: "piece list list" where
  "allowedPatterns =
    [ [Bol, Star Space] @ lit ''select'',
      [Bol, Star Space] @ lit ''insert'',
      [Bol, Star Space] @ lit ''update'' @ [Star Dot] @ lit ''where'',
      [Bol, Star Space] @ lit ''with'',
      [Bol, Star Space] @ lit ''explain'' ]"

definition isQuerySafe :: "jsstring \<Rightarrow> bool" where
  "isQuerySafe query =
     (if list_ex (\<lambda>pattern. regex_test pattern query) dangerousPatterns then False
      else list_ex (\<lambda>pattern. regex_test pattern query) allowedPatterns)"

section \<open>Effects: errors, the event trace, try/catch/finally\<close>

text \<open>
  A thrown JavaScript error is a value (\<open>ExitError tool code\<close> is the error
  \<open>tool exited with code code\<close>); every observable action (a logger or console call, a
  prompt, a mail handed to the transporter, a pooled connection and its queries, a spawned
  process, a file write) is appended to a trace. An asynchronous method is modelled as run
  to completion: a computation takes the state and returns either the error that escapes
  it or its value, with the new state.
\<close>

datatype error = Error string | ExitError string int

datatype event =
    LoggerInfo string
  | LoggerWarn string
  | LoggerError string
  | Console string
  | Prompt string
  | SendMail string
  | Connect
  | Query string
  | Release
  | PoolEnd
  | Mkdir string
  | WriteFile string
  | Spawn string "string list"

definition try_catch ::
  "('s \<Rightarrow> (error + 'a) \<times> 's) \<Rightarrow> (error \<Rightarrow> 's \<Rightarrow> (error + 'a) \<times> 's) \<Rightarrow>
   's \<Rightarrow> (error + 'a) \<times> 's" where
  "try_catch body handler s =
     (case body s of (Inl e, s') \<Rightarrow> handler e s' | (Inr v, s') \<Rightarrow> (Inr v, s'))"

definition try_finally ::
  "('s \<Rightarrow> (error + 'a) \<times> 's) \<Rightarrow> ('s \<Rightarrow> (error + unit) \<times> 's) \<Rightarrow>
   's \<Rightarrow> (error + 'a) \<times> 's" where
  "try_finally body finalizer s =
     (case body s of (r, s') \<Rightarrow>
        (case finalizer s' of (Inl e, s'') \<Rightarrow> (Inl e, s'') | (Inr u, s'') \<Rightarrow> (r, s'')))"

definition and_then ::
  "('s \<Rightarrow> ('e + 'a) \<times> 's) \<Rightarrow> ('a \<Rightarrow> 's \<Rightarrow> ('e + 'b) \<times> 's) \<Rightarrow>
   's \<Rightarrow> ('e + 'b) \<times> 's" where
  "and_then m f s = (case m s of (Inl e, s') \<Rightarrow> (Inl e, s') | (Inr v, s') \<Rightarrow> f v s')"

section \<open>The monitoring service\<close>

text \<open>
  Numeric columns are modelled by their value as a rational number (the operators \<open>/\<close> and
  \<open>>\<close> of the source coerce the column to a number). IEEE rounding of \<open>/\<close> and \<open>*\<close> is
  not modelled: in doubles \<open>(n / 100) * 100\<close> exceeds \<open>n\<close> for some connection counts (7, 14,
  28, 55, 56, ...), so that a usage equal to the threshold raises the alert in the code and
  not here; it is \<open>n\<close> exactly for 10 and for 95.
\<close>

record connection_row =
  active_connections :: rat
  idle_connections :: rat
  active_queries :: rat

record performance_row =
  total_queries :: rat
  total_query_time :: rat
  slow_queries :: rat

record size_row =
  db_size :: rat

record metrics =
  metrics_timestamp :: int
  connections :: connection_row
  performance :: performance_row
  size_of_db :: size_row
  locks :: "(string \<times> rat) list"

record alert_event =
  alert_type :: string
  level :: string
  message :: string
  alert_value :: rat
  threshold :: "int option"

record alert_history_entry =
  key :: string
  timestamp :: int
  alert :: alert_event

record alertThresholds =
  maxConnections :: int
  slowQueryThreshold :: int
  diskUsageThreshold :: int
  errorRate :: int

text \<open>
  What a stored JSON file holds when read back: nothing usable (the read or the parse
  fails), a value that is not an array, or an array.
\<close>

datatype 'a stored = Unreadable | NotArray | Array "'a list"

text \<open>
  The service's fields (\<open>this.metrics.errors\<close>, \<open>this.metrics.lastCollection\<close>,
  \<open>this.alertHistory\<close>), the file \<open>metrics.json\<close>, the number of pooled clients checked
  out, and the trace.
\<close>

record monitor =
  errors :: nat
  lastCollection :: "int option"
  alertHistory :: "alert_history_entry list"
  metricsFile :: "metrics stored"
  checkedOut :: nat
  trace :: "event list"

text \<open>
  The environment of the service: its thresholds, the mail transporter (absent unless
  \<open>SMTP_HOST\<close> is set) with \<open>ALERT_EMAIL\<close>, and number formatting. The transporter answers
  with the error the \<open>try\<close> block of \<open>sendAlert\<close> ends in, if any; the answer may depend on
  everything that happened before.
\<close>

record config =
  thresholds :: alertThresholds
  emailTransporter :: "(event list \<Rightarrow> string \<Rightarrow> alert_event \<Rightarrow> error option) option"
  ALERT_EMAIL :: string
  toFixed :: "nat \<Rightarrow> rat \<Rightarrow> string"
  toString :: "rat \<Rightarrow> string"

definition emit :: "event \<Rightarrow> monitor \<Rightarrow> monitor" where
  "emit ev s = s\<lparr>trace := trace s @ [ev]\<rparr>"

definition new_MonitoringService :: monitor where
  "new_MonitoringService =
     \<lparr>errors = 0, lastCollection = None, alertHistory = [], metricsFile = Unreadable,
      checkedOut = 0, trace = []\<rparr>"

subsection \<open>sendAlert\<close>

definition sendAlert ::
  "(event list \<Rightarrow> string \<Rightarrow> 'd \<Rightarrow> error option) option \<Rightarrow> string \<Rightarrow> string \<Rightarrow> 'd \<Rightarrow>
   monitor \<Rightarrow> (error + unit) \<times> monitor" where
  "sendAlert transporter alertEmail title details s =
     (let s1 = emit (LoggerWarn (''ALERT: '' @ title)) s in
      case transporter of
        Some sendMail \<Rightarrow>
          if alertEmail \<noteq> [] then
            try_catch
              (\<lambda>s. case sendMail (trace s) title details of
                     Some e \<Rightarrow> (Inl e, s)
                   | None \<Rightarrow>
                       (Inr (), emit (LoggerInfo (''Alert email sent: '' @ title))
                                  (emit (SendMail (''Database Alert: '' @ title)) s)))
              (\<lambda>e s. (Inr (), emit (LoggerError ''Failed to send alert email:'') s))
              s1
          else (Inr (), s1)
      | None \<Rightarrow> (Inr (), s1))"

subsection \<open>processAlert\<close>

definition alertKey :: "alert_event \<Rightarrow> string" where
  "alertKey a = alert_type a @ ''_'' @ level a"

definition recentAlert :: "alert_event \<Rightarrow> int \<Rightarrow> monitor \<Rightarrow> alert_history_entry option" where
  "recentAlert a now s =
     find (\<lambda>h. key h = alertKey a \<and> now - timestamp h < 3600000) (alertHistory s)"

text \<open>
  \<open>xs.slice(-n)\<close> for a positive \<open>n\<close>: the last \<open>n\<close> elements, all of them when there are
  fewer.
\<close>

definition slice_last :: "nat \<Rightarrow> 'a list \<Rightarrow> 'a list" where
  "slice_last n xs = drop (length xs - n) xs"

definition pushAlertHistory :: "alert_event \<Rightarrow> int \<Rightarrow> monitor \<Rightarrow> monitor" where
  "pushAlertHistory a now s =
     (let h = alertHistory s @ [\<lparr>key = alertKey a, timestamp = now, alert = a\<rparr>] in
      s\<lparr>alertHistory := (if length h > 100 then slice_last 100 h else h)\<rparr>)"

definition processAlert ::
  "config \<Rightarrow> alert_event \<Rightarrow> int \<Rightarrow> monitor \<Rightarrow> (error + unit) \<times> monitor" where
  "processAlert cfg a now s =
     (if recentAlert a now s = None then
        and_then (sendAlert (emailTransporter cfg) (ALERT_EMAIL cfg) (alert_type a) a)
          (\<lambda>u s'. (Inr (), pushAlertHistory a now s')) s
      else (Inr (), s))"

subsection \<open>checkAlerts\<close>

definition candidateAlerts :: "config \<Rightarrow> metrics \<Rightarrow> alert_event list" where
  "candidateAlerts cfg m =
     (let connectionUsage = (active_connections (connections m) / 100) * 100;
          dbSizeGB = db_size (size_of_db m) / (1024 * 1024 * 1024)
      in
        (if connectionUsage > of_int (maxConnections (thresholds cfg)) then
           [\<lparr>alert_type = ''high_connection_usage'', level = ''warning'',
             message = ''High connection usage: '' @ toFixed cfg 1 connectionUsage @ ''%'',
             alert_value = connectionUsage,
             threshold = Some (maxConnections (thresholds cfg))\<rparr>]
         else []) @
        (if slow_queries (performance m) > 0 then
           [\<lparr>alert_type = ''slow_queries'', level = ''warning'',
             message = toString cfg (slow_queries (performance m)) @ '' slow queries detected'',
             alert_value = slow_queries (performance m),
             threshold = None\<rparr>]
         else []) @
        (if dbSizeGB > 1 then
           [\<lparr>alert_type = ''large_database'', level = ''info'',
             message = ''Database size: '' @ toFixed cfg 2 dbSizeGB @ '' GB'',
             alert_value = dbSizeGB,
             threshold = None\<rparr>]
         else []))"

text \<open>
  The loop \<open>for (const alert of alerts) await this.processAlert(alert)\<close>; \<open>nows i\<close> is what
  \<open>Date.now()\<close> returns in the \<open>i\<close>-th call of \<open>processAlert\<close>.
\<close>

fun processAlerts ::
  "config \<Rightarrow> alert_event list \<Rightarrow> (nat \<Rightarrow> int) \<Rightarrow> nat \<Rightarrow> monitor \<Rightarrow> (error + unit) \<times> monitor" where
  "processAlerts cfg [] nows i s = (Inr (), s)"
| "processAlerts cfg (a # as) nows i s =
     and_then (processAlert cfg a (nows i)) (\<lambda>u. processAlerts cfg as nows (Suc i)) s"

definition checkAlerts ::
  "config \<Rightarrow> metrics \<Rightarrow> (nat \<Rightarrow> int) \<Rightarrow> monitor \<Rightarrow> (error + unit) \<times> monitor" where
  "checkAlerts cfg m nows s = processAlerts cfg (candidateAlerts cfg m) nows 0 s"

subsection \<open>storeMetrics\<close>

text \<open>
  \<open>writeOk\<close> says whether \<open>fs.writeFile\<close> succeeds; a failed write leaves the file in the
  state \<open>left\<close>. A value that is not an array has no \<open>push\<close>: the \<open>TypeError\<close> lands in the
  outer \<open>catch\<close>.
\<close>

definition storeMetrics ::
  "bool \<Rightarrow> metrics stored \<Rightarrow> metrics \<Rightarrow> monitor \<Rightarrow> (error + unit) \<times> monitor" where
  "storeMetrics writeOk left m s =
     try_catch
       (\<lambda>s. case (case metricsFile s of Unreadable \<Rightarrow> Array [] | f \<Rightarrow> f) of
               Array existingMetrics \<Rightarrow>
                 (let pushed = existingMetrics @ [m];
                      kept = (if length pushed > 1000 then slice_last 1000 pushed else pushed);
                      s1 = emit (WriteFile ''metrics.json'') s
                  in if writeOk then (Inr (), s1\<lparr>metricsFile := Array kept\<rparr>)
                     else (Inl (Error ''write failed''), s1\<lparr>metricsFile := left\<rparr>))
             | _ \<Rightarrow> (Inl (Error ''existingMetrics.push is not a function''), s))
       (\<lambda>e s. (Inr (), emit (LoggerError ''Error storing metrics:'') s))
       s"

subsection \<open>collectMetrics\<close>

text \<open>
  What the database answers in one tick: whether \<open>pool.connect()\<close> fails, and for each
  of the four catalog queries its first row (its rows, for the locks) or the error.
\<close>

record db_answers =
  connectResult :: "error option"
  connectionResult :: "error + connection_row"
  performanceResult :: "error + performance_row option"
  sizeResult :: "error + size_row"
  lockResult :: "error + (string \<times> rat) list"

definition client_query :: "string \<Rightarrow> error + 'a \<Rightarrow> monitor \<Rightarrow> (error + 'a) \<times> monitor" where
  "client_query name answer s = (answer, emit (Query name) s)"

definition collectMetrics ::
  "config \<Rightarrow> db_answers \<Rightarrow> bool \<Rightarrow> metrics stored \<Rightarrow> int \<Rightarrow> (nat \<Rightarrow> int) \<Rightarrow>
   monitor \<Rightarrow> (error + unit) \<times> monitor" where
  "collectMetrics cfg db writeOk left now nows s =
     (case connectResult db of
        Some e \<Rightarrow> (Inl e, s)
      | None \<Rightarrow>
          try_finally
            (try_catch
               (and_then (client_query ''pg_stat_activity'' (connectionResult db)) (\<lambda>c.
                and_then (client_query ''pg_stat_statements'' (performanceResult db)) (\<lambda>p.
                and_then (client_query ''pg_database_size'' (sizeResult db)) (\<lambda>z.
                and_then (client_query ''pg_locks'' (lockResult db)) (\<lambda>l.
                  (let m = \<lparr>metrics_timestamp = now, connections = c,
                            performance = (case p of Some row \<Rightarrow> row
                               | None \<Rightarrow> \<lparr>total_queries = 0, total_query_time = 0,
                                          slow_queries = 0\<rparr>),
                            size_of_db = z, locks = l\<rparr>
                   in and_then (storeMetrics writeOk left m) (\<lambda>u.
                      and_then (checkAlerts cfg m nows) (\<lambda>u s.
                        (Inr (), s\<lparr>lastCollection := Some now\<rparr>)))))))))
               (\<lambda>e s. (Inr (), (emit (LoggerError ''Error collecting metrics:'') s)
                                 \<lparr>errors := errors s + 1\<rparr>)))
            (\<lambda>s. (Inr (), (emit Release s)\<lparr>checkedOut := checkedOut s - 1\<rparr>))
            ((emit Connect s)\<lparr>checkedOut := checkedOut s + 1\<rparr>))"

section \<open>The database manager and the admin server's endpoints\<close>

text \<open>
  An external process ends by closing with an exit code, after writing chunks to its
  standard error, or fails to start. \<open>process.env\<close> holds the connection settings; an unset
  variable is the empty string, which \<open>||\<close> replaces by the default.
\<close>

datatype proc_result = Closed "string list" int | SpawnError error

record process_env =
  DB_HOST :: string
  DB_PORT :: string
  DB_USER :: string
  DB_NAME :: string

definition or_default :: "string \<Rightarrow> string \<Rightarrow> string" where
  "or_default v d = (if v = [] then d else v)"

definition spawn_tool ::
  "string \<Rightarrow> string list \<Rightarrow> proc_result \<Rightarrow> event list \<Rightarrow> (error + unit) \<times> event list" where
  "spawn_tool tool args outcome tr =
     (case outcome of
        Closed stderr code \<Rightarrow>
          (if code = 0 then Inr () else Inl (ExitError tool code),
           tr @ [Spawn tool args] @ map (\<lambda>data. LoggerInfo (tool @ '': '' @ data)) stderr)
      | SpawnError e \<Rightarrow> (Inl e, tr @ [Spawn tool args]))"

definition restoreSQLBackup ::
  "process_env \<Rightarrow> proc_result \<Rightarrow> string \<Rightarrow> event list \<Rightarrow> (error + unit) \<times> event list" where
  "restoreSQLBackup env psql backupPath =
     spawn_tool ''psql''
       [''-h'', or_default (DB_HOST env) ''localhost'',
        ''-p'', or_default (DB_PORT env) ''5432'',
        ''-U'', or_default (DB_USER env) ''postgres'',
        ''-d'', or_default (DB_NAME env) ''ghibli_food_db'',
        ''--no-password'', ''-f'', backupPath]
       psql"

definition restoreCSVBackup :: "string \<Rightarrow> event list \<Rightarrow> (error + unit) \<times> event list" where
  "restoreCSVBackup backupPath tr = (Inl (Error ''CSV restore not implemented yet''), tr)"

text \<open>\<open>extname\<close> is Node's \<open>path.extname\<close>, a parameter of the model.\<close>

definition restoreBackup ::
  "(string \<Rightarrow> string) \<Rightarrow> process_env \<Rightarrow> proc_result \<Rightarrow> string \<Rightarrow> event list \<Rightarrow>
   (error + unit) \<times> event list" where
  "restoreBackup extname env psql backupPath =
     (let ext = extname backupPath in
      and_then
        (if ext = ''.sql'' then restoreSQLBackup env psql backupPath
         else if ext = ''.zip'' then restoreCSVBackup backupPath
         else (\<lambda>tr. (Inl (Error ''Unsupported backup file format''), tr)))
        (\<lambda>u tr. (Inr (), tr @ [LoggerInfo (''Backup restored from: '' @ backupPath)])))"

text \<open>
  \<open>createSQLBackup\<close> with \<open>createBackup\<close> around it, for the format \<open>sql\<close> (the only one
  the restore tool asks for); \<open>backupPath\<close> is the dated file name \<open>createBackup\<close> builds.
\<close>

definition createSQLBackup ::
  "process_env \<Rightarrow> proc_result \<Rightarrow> string \<Rightarrow> string list \<Rightarrow> event list \<Rightarrow>
   (error + unit) \<times> event list" where
  "createSQLBackup env pg_dump backupPath tables =
     spawn_tool ''pg_dump''
       ([''-h'', or_default (DB_HOST env) ''localhost'',
         ''-p'', or_default (DB_PORT env) ''5432'',
         ''-U'', or_default (DB_USER env) ''postgres'',
         ''-d'', or_default (DB_NAME env) ''ghibli_food_db'',
         ''--no-password'', ''--verbose'', ''--clean'', ''--if-exists'', ''--format=plain'',
         ''--file='' @ backupPath] @ concat (map (\<lambda>table. [''-t'', table]) tables))
       pg_dump"

definition createBackup_sql ::
  "process_env \<Rightarrow> proc_result \<Rightarrow> string \<Rightarrow> string \<Rightarrow> string list \<Rightarrow> event list \<Rightarrow>
   (error + string) \<times> event list" where
  "createBackup_sql env pg_dump backupDir backupPath tables tr =
     (case createSQLBackup env pg_dump backupPath tables (tr @ [Mkdir backupDir]) of
        (Inr u, tr') \<Rightarrow> (Inr backupPath, tr' @ [LoggerInfo (''Backup created: '' @ backupPath)])
      | (Inl e, tr') \<Rightarrow> (Inl e, tr' @ [LoggerError ''Backup creation failed:'']))"

datatype 'r body = Result 'r | Success string | Failure error

datatype 'r response = Response nat "'r body"

fun status :: "'r response \<Rightarrow> nat" where
  "status (Response code b) = code"

text \<open>
  \<open>POST /api/database/query\<close>. \<open>query\<close> is the body's field as \<open>RegExp.prototype.test\<close>
  reads it (converted to a string); \<open>executeQuery\<close> is the database's answer.
\<close>

definition post_database_query ::
  "(jsstring \<Rightarrow> 'p \<Rightarrow> error + 'r) \<Rightarrow> jsstring \<Rightarrow> 'p \<Rightarrow> event list \<Rightarrow>
   'r response \<times> event list" where
  "post_database_query executeQuery query params tr =
     (if \<not> isQuerySafe query then (Response 400 (Failure (Error ''Unsafe query detected'')), tr)
      else case executeQuery query params of
             Inr result \<Rightarrow> (Response 200 (Result result), tr)
           | Inl e \<Rightarrow> (Response 500 (Failure e), tr @ [LoggerError ''Error executing query:'']))"

text \<open>\<open>POST /api/database/restore\<close>.\<close>

definition post_database_restore ::
  "(string \<Rightarrow> string) \<Rightarrow> process_env \<Rightarrow> proc_result \<Rightarrow> string \<Rightarrow> event list \<Rightarrow>
   'r response \<times> event list" where
  "post_database_restore extname env psql backupPath tr =
     (case restoreBackup extname env psql backupPath tr of
        (Inr u, tr') \<Rightarrow> (Response 200 (Success ''Database restored successfully''), tr')
      | (Inl e, tr') \<Rightarrow> (Response 500 (Failure e), tr' @ [LoggerError ''Error restoring backup:'']))"

section \<open>The backup and restore command-line tools\<close>

text \<open>\<open>BackupManager.compressBackup\<close> writes the compressed copy under this name.\<close>

definition compressedPath :: "string \<Rightarrow> string" where
  "compressedPath backupPath = backupPath @ ''.gz''"

text \<open>
  The restore tool. A computation of the tool ends in a value, in a thrown error, in
  \<open>process.exit\<close>, or in an \<open>error\<close> event that no listener handles and that ends the
  process; no \<open>catch\<close> and no \<open>finally\<close> sees the last two.
\<close>

datatype abort = Thrown error | ProcessExit int | Crashed error

definition throwing ::
  "('s \<Rightarrow> (error + 'a) \<times> 's) \<Rightarrow> 's \<Rightarrow> (abort + 'a) \<times> 's" where
  "throwing m s = (case m s of (Inl e, s') \<Rightarrow> (Inl (Thrown e), s') | (Inr v, s') \<Rightarrow> (Inr v, s'))"

definition catch_thrown ::
  "('s \<Rightarrow> (abort + 'a) \<times> 's) \<Rightarrow> (error \<Rightarrow> 's \<Rightarrow> (abort + 'a) \<times> 's) \<Rightarrow>
   's \<Rightarrow> (abort + 'a) \<times> 's" where
  "catch_thrown body handler s =
     (case body s of (Inl (Thrown e), s') \<Rightarrow> handler e s' | r \<Rightarrow> r)"

record cli_options =
  file_option :: "string option"
  directory :: string
  force :: bool
  dryRun :: bool

record fs_file =
  size_bytes :: nat
  birthtime :: int
  content :: "string option"

text \<open>
  How decompressing ends: the \<open>error\<close> listener of \<open>decompressBackup\<close> is on the write
  stream only, so a failure of the read stream or of \<open>gunzip\<close> is an unhandled event, and a
  failure of the write stream rejects the promise.
\<close>

datatype gunzip_result = Gunzipped | StreamFailed error | WriteFailed error

text \<open>
  What the tool finds around it: the files (\<open>content\<close> is \<open>None\<close> when the file cannot be
  read), the listing of the backup directory, the operator's answers, whether the database
  accepts connections, how the external tools end, the directory and the dated file name
  \<open>DatabaseManager.createBackup\<close> builds, and Node's \<open>path\<close> functions.
\<close>

record cli_world =
  files :: "string \<Rightarrow> fs_file option"
  readdir :: "string list option"
  prompt_list :: "string list \<Rightarrow> string"
  prompt_confirm :: bool
  connection :: "error option"
  pg_dump_run :: proc_result
  psql_run :: proc_result
  gunzip :: gunzip_result
  managerBackupDir :: string
  managerBackupPath :: string
  path_resolve :: "string \<Rightarrow> string"
  path_join :: "string \<Rightarrow> string \<Rightarrow> string"
  path_extname :: "string \<Rightarrow> string"
  environment :: process_env

definition endsWith :: "string \<Rightarrow> string \<Rightarrow> bool" where
  "endsWith s t = suffix t s"

definition startsWith :: "string \<Rightarrow> string \<Rightarrow> bool" where
  "startsWith s t = prefix t s"

definition includes_str :: "string \<Rightarrow> string \<Rightarrow> bool" where
  "includes_str s t = sublist t s"

text \<open>\<open>s.replace(pat, rep)\<close> with a string pattern: the first occurrence only.\<close>

fun replace_first :: "string \<Rightarrow> string \<Rightarrow> string \<Rightarrow> string" where
  "replace_first pat rep [] = (if pat = [] then rep else [])"
| "replace_first pat rep (c # cs) =
     (if prefix pat (c # cs) then rep @ drop (length pat) (c # cs)
      else c # replace_first pat rep cs)"

definition listAvailableBackups ::
  "cli_options \<Rightarrow> cli_world \<Rightarrow> event list \<Rightarrow> string list \<times> event list" where
  "listAvailableBackups opts w tr =
     (case readdir w of
        None \<Rightarrow> ([], tr @ [Console ''Error reading backup directory''])
      | Some names \<Rightarrow>
          (let backupFiles =
                 map (\<lambda>name. path_join w (path_resolve w (directory opts)) name)
                   (filter (\<lambda>name. startsWith name ''backup-'' \<and>
                      (endsWith name ''.sql'' \<or> endsWith name ''.zip'' \<or> endsWith name ''.gz''))
                    names);
               stats = map (\<lambda>p. (p, files w p)) backupFiles
           in if list_ex (\<lambda>ps. snd ps = None) stats
              then ([], tr @ [Console ''Error reading backup directory''])
              else (map fst
                      (sort_key (\<lambda>ps. case snd ps of Some st \<Rightarrow> - birthtime st | None \<Rightarrow> 0)
                         stats),
                    tr)))"

definition selectBackupFile ::
  "cli_options \<Rightarrow> cli_world \<Rightarrow> event list \<Rightarrow> (abort + string) \<times> event list" where
  "selectBackupFile opts w tr =
     (case file_option opts of
        Some f \<Rightarrow>
          (let filePath = path_resolve w f in
           case files w filePath of
             Some st \<Rightarrow> (Inr filePath, tr)
           | None \<Rightarrow> (Inl (ProcessExit 1), tr @ [Console ''Backup file not found'']))
      | None \<Rightarrow>
          (case listAvailableBackups opts w tr of
             (backups, tr1) \<Rightarrow>
               if backups = []
               then (Inl (ProcessExit 1),
                     tr1 @ [Console ''No backup files found in the directory''])
               else (Inr (prompt_list w backups),
                     tr1 @ [Console ''Available backup files:'',
                            Prompt ''Select a backup file to restore:''])))"

definition validateBackup ::
  "cli_world \<Rightarrow> string \<Rightarrow> event list \<Rightarrow> bool \<times> event list" where
  "validateBackup w backupPath tr =
     (let tr1 = tr @ [Console ''Validating backup file...''] in
      case files w backupPath of
        None \<Rightarrow> (False, tr1 @ [Console ''Backup validation failed''])
      | Some stats \<Rightarrow>
          if size_bytes stats = 0 then (False, tr1 @ [Console ''Backup file is empty''])
          else if endsWith backupPath ''.sql'' \<or> endsWith backupPath ''.gz'' then
            (case content stats of
               None \<Rightarrow> (False, tr1 @ [Console ''Backup validation failed''])
             | Some text \<Rightarrow>
                 if includes_str text ''CREATE'' \<or> includes_str text ''INSERT'' \<or> includes_str text ''COPY''
                 then (True, tr1 @ [Console ''Backup file validation passed''])
                 else (False, tr1 @ [Console
                         ''Backup file appears to be invalid (no SQL content found)'']))
          else (True, tr1 @ [Console ''Backup file validation passed'']))"

definition createRestorePoint ::
  "cli_options \<Rightarrow> cli_world \<Rightarrow> event list \<Rightarrow> (abort + unit) \<times> event list" where
  "createRestorePoint opts w tr =
     (case createBackup_sql (environment w) (pg_dump_run w) (managerBackupDir w)
             (managerBackupPath w) []
             (tr @ [Console ''Creating restore point before proceeding...'']) of
        (Inr p, tr') \<Rightarrow> (Inr (), tr' @ [Console ''Restore point created''])
      | (Inl e, tr') \<Rightarrow> (Inr (), tr' @ [Console ''Could not create restore point'']))"

definition getDatabaseInfo :: "cli_world \<Rightarrow> event list \<Rightarrow> (error + unit) \<times> event list" where
  "getDatabaseInfo w tr =
     (case connection w of
        Some e \<Rightarrow> (Inl e, tr)
      | None \<Rightarrow> (Inr (), tr @ [Connect, Query ''version'', Query ''size'', Query ''connections'',
                                Query ''tables'', Release]))"

definition testConnection :: "cli_world \<Rightarrow> event list \<Rightarrow> (error + unit) \<times> event list" where
  "testConnection w tr =
     (case connection w of
        Some e \<Rightarrow> (Inl e, tr @ [LoggerError ''Database connection failed:''])
      | None \<Rightarrow> (Inr (), tr @ [Connect, Query ''SELECT NOW()'', Release,
                                LoggerInfo ''Database connection successful'']))"

definition confirmRestore ::
  "cli_options \<Rightarrow> cli_world \<Rightarrow> string \<Rightarrow> event list \<Rightarrow> (abort + bool) \<times> event list" where
  "confirmRestore opts w backupPath tr =
     (if force opts then (Inr True, tr)
      else and_then
             (throwing (getDatabaseInfo w))
             (\<lambda>u tr. (Inr (prompt_confirm w),
                       tr @ [Prompt ''Are you sure you want to proceed with the restore?'']))
             (tr @ [Console ''WARNING: This operation will replace existing data!'']))"

definition decompressBackup ::
  "cli_world \<Rightarrow> string \<Rightarrow> event list \<Rightarrow> (abort + string) \<times> event list" where
  "decompressBackup w compressed tr =
     (let decompressedPath = replace_first ''.gz'' [] compressed in
      case gunzip w of
        Gunzipped \<Rightarrow> (Inr decompressedPath, tr @ [WriteFile decompressedPath])
      | WriteFailed e \<Rightarrow> (Inl (Thrown e), tr @ [WriteFile decompressedPath])
      | StreamFailed e \<Rightarrow> (Inl (Crashed e), tr @ [WriteFile decompressedPath]))"

definition showRestoreSummary :: "cli_world \<Rightarrow> event list \<Rightarrow> (error + unit) \<times> event list" where
  "showRestoreSummary w tr =
     try_catch
       (and_then (getDatabaseInfo w)
          (\<lambda>u tr. case connection w of
                     Some e \<Rightarrow> (Inl e, tr)
                   | None \<Rightarrow> (Inr (), tr @ [Connect, Query ''pg_stat_user_tables'', Release,
                                             Console ''Restore Summary:''])))
       (\<lambda>e tr. (Inr (), tr @ [Console ''Could not generate summary'']))
       tr"

definition performRestore ::
  "cli_options \<Rightarrow> cli_world \<Rightarrow> string \<Rightarrow> event list \<Rightarrow> (abort + unit) \<times> event list" where
  "performRestore opts w backupPath tr =
     catch_thrown
       (and_then (throwing (testConnection w)) (\<lambda>u.
          if dryRun opts then (\<lambda>tr. (Inr (), tr @ [Console ''DRY RUN: Would restore'']))
          else
            and_then
              (if endsWith backupPath ''.gz'' then decompressBackup w backupPath
               else (\<lambda>tr. (Inr backupPath, tr)))
              (\<lambda>path.
                 and_then
                   (throwing
                      (restoreBackup (path_extname w) (environment w) (psql_run w) path))
                   (\<lambda>u tr.
                      throwing (showRestoreSummary w)
                        (tr @ [Console ''Database restored successfully!''])))))
       (\<lambda>e tr. (Inl (Thrown e), tr @ [Console ''Restore failed'']))
       (tr @ [Console ''Preparing for restore...''])"

definition mentions_connection :: "error \<Rightarrow> bool" where
  "mentions_connection e =
     (case e of Error msg \<Rightarrow> includes_str msg ''connection'' | ExitError tool code \<Rightarrow> False)"

definition restore_main ::
  "cli_options \<Rightarrow> cli_world \<Rightarrow> event list \<Rightarrow> (abort + unit) \<times> event list" where
  "restore_main opts w tr =
     (case
        catch_thrown
          (and_then (selectBackupFile opts w) (\<lambda>backupPath.
           and_then (\<lambda>tr. case validateBackup w backupPath tr of (ok, tr') \<Rightarrow> (Inr ok, tr'))
             (\<lambda>isValid.
                if \<not> isValid then (\<lambda>tr. (Inl (ProcessExit 1), tr))
                else
                  and_then
                    (if \<not> dryRun opts then createRestorePoint opts w
                     else (\<lambda>tr. (Inr (), tr)))
                    (\<lambda>u.
                  and_then (confirmRestore opts w backupPath) (\<lambda>confirmed.
                    if \<not> confirmed
                    then (\<lambda>tr. (Inl (ProcessExit 0), tr @ [Console ''Restore cancelled'']))
                    else
                      and_then (performRestore opts w backupPath) (\<lambda>u tr.
                        (Inr (), tr @ [Console ''Restore completed successfully!''])))))))
          (\<lambda>e tr. (Inl (ProcessExit 1),
                    tr @ [Console ''Restore failed''] @
                      (if mentions_connection e then [Console ''Troubleshooting tips:'']
                       else [])))
          (tr @ [Console ''Ghibli Food Database Restore Tool''])
      of (Inr u, tr') \<Rightarrow> (Inr u, tr' @ [PoolEnd])
       | (Inl a, tr') \<Rightarrow> (Inl a, tr'))"

section \<open>Observations stated in the words of the specification\<close>

text \<open>
  Equality of code units up to ASCII letter case, a word at the start of a string, a word
  anywhere in a string, and a statement that begins with a keyword after optional leading
  whitespace.
\<close>

definition lower :: "nat \<Rightarrow> nat" where
  "lower c = (if 65 \<le> c \<and> c \<le> 90 then c + 32 else c)"

definition ci_prefix :: "jsstring \<Rightarrow> jsstring \<Rightarrow> bool" where
  "ci_prefix w s \<longleftrightarrow> length w \<le> length s \<and> map lower (take (length w) s) = map lower w"

fun ci_contains :: "jsstring \<Rightarrow> jsstring \<Rightarrow> bool" where
  "ci_contains w [] = ci_prefix w []"
| "ci_contains w (c # cs) = (if ci_prefix w (c # cs) then True else ci_contains w cs)"

definition begins_with :: "string \<Rightarrow> jsstring \<Rightarrow> bool" where
  "begins_with w q = ci_prefix (js w) (dropWhile isWhiteSpace q)"

text \<open>
  A sequence of \<open>processAlert\<close> executions, one after the other, each with the alert and
  the value \<open>Date.now()\<close> returns in it; the entries it dispatches, in order (a dispatched alert is one for which
  \<open>sendAlert\<close> is called, which is when no recent entry is found); and the property that
  entries of one key lie at least the cooldown apart.
\<close>

fun run :: "config \<Rightarrow> (alert_event \<times> int) list \<Rightarrow> monitor \<Rightarrow> monitor" where
  "run cfg [] s = s"
| "run cfg ((a, now) # xs) s = run cfg xs (snd (processAlert cfg a now s))"

fun dispatched ::
  "config \<Rightarrow> (alert_event \<times> int) list \<Rightarrow> monitor \<Rightarrow> alert_history_entry list" where
  "dispatched cfg [] s = []"
| "dispatched cfg ((a, now) # xs) s =
     (if recentAlert a now s = None
      then [\<lparr>key = alertKey a, timestamp = now, alert = a\<rparr>] else []) @
     dispatched cfg xs (snd (processAlert cfg a now s))"

definition entry_of :: "alert_event \<times> int \<Rightarrow> alert_history_entry" where
  "entry_of x = \<lparr>key = alertKey (fst x), timestamp = snd x, alert = fst x\<rparr>"

fun spaced :: "alert_history_entry list \<Rightarrow> bool" where
  "spaced [] = True"
| "spaced (e # es) =
     ((\<forall>e' \<in> set es. key e' = key e \<longrightarrow> 3600000 \<le> timestamp e' - timestamp e) \<and> spaced es)"

text \<open>
  The number of times \<open>sendAlert\<close> was called with a title (each call logs
  \<open>ALERT: title\<close> first), the dedup key of the connection alert, the history entries under
  that key, the alerts that have neither its type nor its key, the local constant
  \<open>connectionUsage\<close> of \<open>checkAlerts\<close>, and the state after one evaluation.
\<close>

definition alertsSent :: "string \<Rightarrow> monitor \<Rightarrow> nat" where
  "alertsSent title s = count_list (trace s) (LoggerWarn (''ALERT: '' @ title))"

definition connKey :: string where
  "connKey = ''high_connection_usage_warning''"

definition connEntries :: "monitor \<Rightarrow> alert_history_entry list" where
  "connEntries s = filter (\<lambda>h. key h = connKey) (alertHistory s)"

definition unrelated :: "alert_event \<Rightarrow> bool" where
  "unrelated a \<longleftrightarrow> alert_type a \<noteq> ''high_connection_usage'' \<and> alertKey a \<noteq> connKey"

definition connectionUsage :: "metrics \<Rightarrow> rat" where
  "connectionUsage m = (active_connections (connections m) / 100) * 100"

definition tick :: "config \<Rightarrow> metrics \<Rightarrow> (nat \<Rightarrow> int) \<Rightarrow> monitor \<Rightarrow> monitor" where
  "tick cfg m nows s = snd (checkAlerts cfg m nows s)"

text \<open>
  The type and level of the alerts the rules of \<open>checkAlerts\<close> produce, and an
  alert that has one of them.
\<close>

definition candidateKinds :: "(string \<times> string) list" where
  "candidateKinds =
     [(''high_connection_usage'', ''warning''), (''slow_queries'', ''warning''),
      (''large_database'', ''info'')]"

definition isCandidate :: "alert_event \<Rightarrow> bool" where
  "isCandidate a \<longleftrightarrow> (alert_type a, level a) \<in> set candidateKinds"

text \<open>
  The catalog queries one tick of \<open>collectMetrics\<close> issues: up to and including the first
  that fails.
\<close>

definition issued :: "db_answers \<Rightarrow> string list" where
  "issued db =
     (if isl (connectionResult db) then [''pg_stat_activity'']
      else if isl (performanceResult db) then [''pg_stat_activity'', ''pg_stat_statements'']
      else if isl (sizeResult db)
        then [''pg_stat_activity'', ''pg_stat_statements'', ''pg_database_size'']
      else [''pg_stat_activity'', ''pg_stat_statements'', ''pg_database_size'', ''pg_locks''])"

text \<open>
  Node's \<open>path.extname\<close> for POSIX paths: the part of the last path component (trailing
  slashes ignored) from its last dot on, empty when there is no dot, when the dot is the
  component's first character, and for the component \<open>..\<close>. The scan runs from the end of
  the path, as Node's does.
\<close>

definition posix_extname :: "string \<Rightarrow> string" where
  "posix_extname path =
     (let r = dropWhile (\<lambda>c. c = CHR ''/'') (rev path);
          b = takeWhile (\<lambda>c. c \<noteq> CHR ''/'') r;
          e = takeWhile (\<lambda>c. c \<noteq> CHR ''.'') b
      in if length e = length b then []
         else if Suc (length e) = length b then []
         else if b = ''..'' then []
         else CHR ''.'' # rev e)"

section \<open>Sample inputs\<close>

text \<open>
  A service with no mail transporter and the default thresholds, a process environment
  with no variable set, a metrics snapshot with a given number of connections and three
  slow queries, and the two alerts \<open>checkAlerts\<close> produces for it at 95 connections. In
  \<open>clock_set_back\<close> the connection alert is processed at clock reading 0, the slow-query
  alert a hundred times an hour apart, then the connection alert at reading 1, the clock
  having been set back. \<open>candidate_sequence\<close> is a short sequence with a forward clock.
\<close>

definition default_config :: config where
  "default_config =
     \<lparr>thresholds = \<lparr>maxConnections = 80, slowQueryThreshold = 1000,
                     diskUsageThreshold = 85, errorRate = 10\<rparr>,
      emailTransporter = None, ALERT_EMAIL = [],
      toFixed = (\<lambda>digits x. []), toString = (\<lambda>x. [])\<rparr>"

definition no_env :: process_env where
  "no_env = \<lparr>DB_HOST = [], DB_PORT = [], DB_USER = [], DB_NAME = []\<rparr>"

definition snapshot :: "rat \<Rightarrow> metrics" where
  "snapshot n =
     \<lparr>metrics_timestamp = 0,
      connections = \<lparr>active_connections = n, idle_connections = 0, active_queries = 0\<rparr>,
      performance = \<lparr>total_queries = 0, total_query_time = 0, slow_queries = 3\<rparr>,
      size_of_db = \<lparr>db_size = 0\<rparr>, locks = []\<rparr>"

definition connection_alert :: alert_event where
  "connection_alert =
     \<lparr>alert_type = ''high_connection_usage'', level = ''warning'',
      message = ''High connection usage: %'', alert_value = 95, threshold = Some 80\<rparr>"

definition slow_alert :: alert_event where
  "slow_alert =
     \<lparr>alert_type = ''slow_queries'', level = ''warning'',
      message = '' slow queries detected'', alert_value = 3, threshold = None\<rparr>"

definition hourly :: "alert_event \<Rightarrow> nat \<Rightarrow> (alert_event \<times> int) list" where
  "hourly a n = map (\<lambda>k. (a, 3600000 * int k)) [0..<n]"

definition clock_set_back :: "(alert_event \<times> int) list" where
  "clock_set_back = (connection_alert, 0) # hourly slow_alert 100 @ [(connection_alert, 1)]"

definition candidate_sequence :: "(alert_event \<times> int) list" where
  "candidate_sequence =
     [(connection_alert, 0), (connection_alert\<lparr>alert_value := 99\<rparr>, 1000), (slow_alert, 2000),
      (connection_alert\<lparr>alert_value := 81\<rparr>, 3600000)]"

definition statements_missing :: db_answers where
  "statements_missing =
     \<lparr>connectResult = None,
      connectionResult =
        Inr \<lparr>active_connections = 3, idle_connections = 1, active_queries = 1\<rparr>,
      performanceResult = Inl (Error ''relation pg_stat_statements does not exist''),
      sizeResult = Inr \<lparr>db_size = 8000000\<rparr>,
      lockResult = Inr []\<rparr>"

section \<open>The query filter\<close>

subsection \<open>What a match of a pattern says about the string\<close>

lemma canonicalize_lower: "canonicalize c = canonicalize p \<longleftrightarrow> lower c = lower p"
  by (auto simp: canonicalize_def lower_def split: if_splits)

lemma ci_prefix_Nil [simp]: "ci_prefix [] s"
  by (simp add: ci_prefix_def)

lemma ci_prefix_Cons:
  "ci_prefix (p # w) s \<longleftrightarrow> (\<exists>c cs. s = c # cs \<and> lower c = lower p \<and> ci_prefix w cs)"
  by (cases s) (auto simp: ci_prefix_def)

lemma ci_prefix_append:
  "ci_prefix (u @ v) s \<longleftrightarrow> ci_prefix u s \<and> ci_prefix v (drop (length u) s)"
proof (induction u arbitrary: s)
  case Nil
  then show ?case by simp
next
  case (Cons x u)
  then show ?case by (cases s) (auto simp: ci_prefix_Cons)
qed

lemma matches_lit:
  "matches (lit w @ ps) b s \<Longrightarrow>
     ci_prefix (js w) s \<and> (\<exists>b'. matches ps b' (drop (length w) s))"
proof (induction w arbitrary: b s)
  case Nil
  then show ?case by (auto simp: lit_def js_def)
next
  case (Cons x w)
  from Cons.prems obtain c cs where s: "s = c # cs"
    by (cases s) (auto simp: lit_def)
  from Cons.prems s have ok: "canonicalize c = canonicalize (of_char x)"
    and rest: "matches (lit w @ ps) False cs"
    by (auto simp: lit_def split: if_splits)
  from Cons.IH [OF rest] ok s show ?case
    by (auto simp: js_def ci_prefix_Cons canonicalize_lower)
qed

lemma lit_match:
  "ci_prefix (js w) s \<Longrightarrow> (\<And>b'. matches ps b' (drop (length w) s)) \<Longrightarrow>
     matches (lit w @ ps) b s"
proof (induction w arbitrary: b s)
  case Nil
  then show ?case by (simp add: lit_def)
next
  case (Cons x w)
  from Cons.prems(1) obtain c cs where s: "s = c # cs" and c: "lower c = lower (of_char x)"
    and rest: "ci_prefix (js w) cs"
    by (auto simp: js_def ci_prefix_Cons)
  have "matches (lit w @ ps) False cs"
    using Cons.IH [OF rest] Cons.prems(2) s by simp
  then show ?case using s c by (simp add: lit_def canonicalize_lower)
qed

lemma matches_Star:
  "matches (Star a # ps) b s \<Longrightarrow>
     \<exists>n b'. n \<le> length s \<and> (\<forall>c \<in> set (take n s). atom_ok a c) \<and> matches ps b' (drop n s)"
proof (induction s arbitrary: b)
  case Nil
  then show ?case by auto
next
  case (Cons c cs)
  show ?case
  proof (cases "atom_ok a c \<and> matches (Star a # ps) False cs")
    case True
    with Cons.IH [of False] obtain n b' where
      "n \<le> length cs" "\<forall>c \<in> set (take n cs). atom_ok a c" "matches ps b' (drop n cs)"
      by blast
    with True show ?thesis
      by (intro exI [of _ "Suc n"] exI [of _ b']) auto
  next
    case False
    with Cons.prems have "matches ps b (c # cs)"
      by (auto split: if_splits)
    then show ?thesis
      by (intro exI [of _ 0] exI [of _ b]) auto
  qed
qed

lemma star_skip: "matches ps b s \<Longrightarrow> matches (Star a # ps) b s"
  by (cases s) auto

lemma star_intro:
  "(\<And>b'. matches ps b' (dropWhile (atom_ok a) s)) \<Longrightarrow> matches (Star a # ps) b s"
proof (induction s arbitrary: b)
  case Nil
  then show ?case by simp
next
  case (Cons c cs)
  show ?case
  proof (cases "atom_ok a c")
    case True
    with Cons.prems have "\<And>b'. matches ps b' (dropWhile (atom_ok a) cs)" by simp
    then have "matches (Star a # ps) False cs" by (rule Cons.IH)
    with True show ?thesis by simp
  next
    case False
    with Cons.prems [of b] show ?thesis by simp
  qed
qed

lemma search_Bol [simp]: "search (Bol # ps) s = False"
  by (induction s) auto

lemma regex_test_Bol: "regex_test (Bol # ps) s = matches ps True s"
  by (cases s) (auto simp: regex_test_def)

lemma search_iff: "search ps s \<longleftrightarrow> (\<exists>n. n \<le> length s \<and> matches ps False (drop n s))"
proof (induction s)
  case Nil
  then show ?case by simp
next
  case (Cons c cs)
  show ?case
  proof
    assume "search ps (c # cs)"
    then consider "matches ps False (c # cs)" | "search ps cs" by (auto split: if_splits)
    then show "\<exists>n. n \<le> length (c # cs) \<and> matches ps False (drop n (c # cs))"
    proof cases
      case 1
      then show ?thesis by (intro exI [of _ 0]) simp
    next
      case 2
      with Cons.IH obtain n where "n \<le> length cs" "matches ps False (drop n cs)" by blast
      then show ?thesis by (intro exI [of _ "Suc n"]) simp
    qed
  next
    assume "\<exists>n. n \<le> length (c # cs) \<and> matches ps False (drop n (c # cs))"
    then obtain n where n: "n \<le> length (c # cs)" "matches ps False (drop n (c # cs))" by blast
    show "search ps (c # cs)"
    proof (cases n)
      case 0
      with n show ?thesis by simp
    next
      case (Suc k)
      with n have "k \<le> length cs \<and> matches ps False (drop k cs)" by simp
      with Cons.IH have "search ps cs" by blast
      then show ?thesis by simp
    qed
  qed
qed

lemma regex_test_at:
  assumes "n \<le> length s" and "\<And>b. matches ps b (drop n s)"
  shows "regex_test ps s"
proof (cases n)
  case 0
  with assms(2) [of True] show ?thesis by (simp add: regex_test_def)
next
  case (Suc k)
  with assms(1) obtain c cs where s: "s = c # cs" by (cases s) auto
  with Suc assms have "k \<le> length cs \<and> matches ps False (drop k cs)" by auto
  then have "search ps cs" unfolding search_iff by blast
  then show ?thesis using s by (simp add: regex_test_def)
qed

lemma ci_contains_drop: "ci_prefix w (drop n s) \<Longrightarrow> ci_contains w s"
proof (induction s arbitrary: n)
  case Nil
  then show ?case by simp
next
  case (Cons c cs)
  then show ?case by (cases n) auto
qed

lemma ci_contains_iff: "ci_contains w s \<longleftrightarrow> (\<exists>n. n \<le> length s \<and> ci_prefix w (drop n s))"
proof (induction s)
  case Nil
  then show ?case by simp
next
  case (Cons c cs)
  show ?case
  proof
    assume "ci_contains w (c # cs)"
    then consider "ci_prefix w (c # cs)" | "ci_contains w cs" by (auto split: if_splits)
    then show "\<exists>n. n \<le> length (c # cs) \<and> ci_prefix w (drop n (c # cs))"
    proof cases
      case 1
      then show ?thesis by (intro exI [of _ 0]) simp
    next
      case 2
      with Cons.IH obtain n where "n \<le> length cs" "ci_prefix w (drop n cs)" by blast
      then show ?thesis by (intro exI [of _ "Suc n"]) simp
    qed
  next
    assume "\<exists>n. n \<le> length (c # cs) \<and> ci_prefix w (drop n (c # cs))"
    then obtain n where "ci_prefix w (drop n (c # cs))" by blast
    then show "ci_contains w (c # cs)" by (rule ci_contains_drop)
  qed
qed

lemma regex_test_lit_contains:
  assumes "regex_test (lit w @ ps) s"
  shows "ci_contains (js w) s"
proof -
  from assms consider "matches (lit w @ ps) True s"
    | c cs where "s = c # cs" "search (lit w @ ps) cs"
    by (auto simp: regex_test_def split: if_splits list.splits)
  then show ?thesis
  proof cases
    case 1
    from matches_lit [OF 1] have "ci_prefix (js w) (drop 0 s)" by simp
    then show ?thesis by (rule ci_contains_drop)
  next
    case 2
    from 2(2) obtain n where "matches (lit w @ ps) False (drop n cs)"
      unfolding search_iff by blast
    from matches_lit [OF this] have "ci_prefix (js w) (drop (Suc n) s)" using 2(1) by simp
    then show ?thesis by (rule ci_contains_drop)
  qed
qed

lemma dropWhile_spaces:
  assumes "\<forall>c \<in> set (take n s). isWhiteSpace c" and "n \<le> length s"
    and "ci_prefix (p # w) (drop n s)"
    and "\<And>c. lower c = lower p \<Longrightarrow> \<not> isWhiteSpace c"
  shows "dropWhile isWhiteSpace s = drop n s"
proof -
  from assms(3) obtain c cs where d: "drop n s = c # cs" and c: "lower c = lower p"
    by (auto simp: ci_prefix_Cons)
  have "s = take n s @ c # cs" using d by (metis append_take_drop_id)
  then have "dropWhile isWhiteSpace s = dropWhile isWhiteSpace (take n s @ c # cs)" by simp
  also have "\<dots> = dropWhile isWhiteSpace (c # cs)"
    using assms(1) by simp
  also have "\<dots> = c # cs" using assms(4) [OF c] by simp
  finally show ?thesis using d by simp
qed

lemma letter_not_space:
  "97 \<le> p \<Longrightarrow> p \<le> 122 \<Longrightarrow> lower c = lower p \<Longrightarrow> \<not> isWhiteSpace c"
  by (auto simp: lower_def isWhiteSpace_def split: if_splits)

lemma allowed_begins:
  assumes "regex_test ([Bol, Star Space] @ lit (x # w) @ ps) q"
    and "97 \<le> (of_char x :: nat)" and "(of_char x :: nat) \<le> 122"
  shows "begins_with (x # w) q \<and>
         (\<exists>b'. matches ps b' (drop (length (x # w)) (dropWhile isWhiteSpace q)))"
proof -
  from assms(1) have "matches (Star Space # lit (x # w) @ ps) True q"
    by (simp add: regex_test_Bol)
  from matches_Star [OF this] obtain n b' where n: "n \<le> length q"
    and sp: "\<forall>c \<in> set (take n q). isWhiteSpace c"
    and m: "matches (lit (x # w) @ ps) b' (drop n q)"
    by auto
  from matches_lit [OF m] obtain b'' where pre: "ci_prefix (js (x # w)) (drop n q)"
    and rest: "matches ps b'' (drop (length (x # w)) (drop n q))"
    by blast
  have dw: "dropWhile isWhiteSpace q = drop n q"
    using sp n pre assms(2,3)
    by (intro dropWhile_spaces [where p = "of_char x" and w = "js w"])
       (auto simp: js_def letter_not_space)
  show ?thesis using pre rest dw by (auto simp: begins_with_def)
qed

lemma begins_with_first:
  "begins_with (x # w) q \<Longrightarrow> begins_with (y # v) q \<Longrightarrow>
     lower (of_char x) = lower (of_char y)"
  by (auto simp: begins_with_def js_def ci_prefix_Cons)

lemmas ev =
  isQuerySafe_def js_def lit_def dangerousPatterns_def allowedPatterns_def regex_test_def
  isWhiteSpace_def isLineTerminator_def canonicalize_def

subsection \<open>The allowlist\<close>

lemma allowed_select:
  "regex_test ([Bol, Star Space] @ lit ''select'') q \<Longrightarrow> begins_with ''select'' q"
  using allowed_begins [of "CHR ''s''" "''elect''" "[]" q] by simp

lemma allowed_insert:
  "regex_test ([Bol, Star Space] @ lit ''insert'') q \<Longrightarrow> begins_with ''insert'' q"
  using allowed_begins [of "CHR ''i''" "''nsert''" "[]" q] by simp

lemma allowed_with:
  "regex_test ([Bol, Star Space] @ lit ''with'') q \<Longrightarrow> begins_with ''with'' q"
  using allowed_begins [of "CHR ''w''" "''ith''" "[]" q] by simp

lemma allowed_explain:
  "regex_test ([Bol, Star Space] @ lit ''explain'') q \<Longrightarrow> begins_with ''explain'' q"
  using allowed_begins [of "CHR ''e''" "''xplain''" "[]" q] by simp

lemma allowed_update:
  assumes "regex_test ([Bol, Star Space] @ lit ''update'' @ [Star Dot] @ lit ''where'') q"
  shows "begins_with ''update'' q \<and>
         ci_contains (js ''where'') (drop 6 (dropWhile isWhiteSpace q))"
proof -
  have six: "length ''update'' = 6" by simp
  from allowed_begins [of "CHR ''u''" "''pdate''" "[Star Dot] @ lit ''where''" q] assms
  have b: "begins_with ''update'' q"
    and "\<exists>b'. matches ([Star Dot] @ lit ''where'')  b'
           (drop (length ''update'') (dropWhile isWhiteSpace q))"
    by simp_all
  then obtain b' where
    m: "matches (Star Dot # lit ''where'' @ []) b' (drop 6 (dropWhile isWhiteSpace q))"
    unfolding six by auto
  from matches_Star [OF m] obtain n b'' where
    "matches (lit ''where'' @ []) b'' (drop n (drop 6 (dropWhile isWhiteSpace q)))"
    by blast
  from matches_lit [OF this]
  have "ci_prefix (js ''where'') (drop n (drop 6 (dropWhile isWhiteSpace q)))" by simp
  then show ?thesis using b by (simp add: ci_contains_drop)
qed

lemma isQuerySafe_allowed:
  assumes "isQuerySafe q"
  shows "begins_with ''select'' q \<or> begins_with ''insert'' q \<or>
     (begins_with ''update'' q \<and>
        ci_contains (js ''where'') (drop 6 (dropWhile isWhiteSpace q))) \<or>
     begins_with ''with'' q \<or> begins_with ''explain'' q"
proof -
  from assms have "list_ex (\<lambda>pattern. regex_test pattern q) allowedPatterns"
    by (simp add: isQuerySafe_def split: if_splits)
  then consider
      "regex_test ([Bol, Star Space] @ lit ''select'') q"
    | "regex_test ([Bol, Star Space] @ lit ''insert'') q"
    | "regex_test ([Bol, Star Space] @ lit ''update'' @ [Star Dot] @ lit ''where'') q"
    | "regex_test ([Bol, Star Space] @ lit ''with'') q"
    | "regex_test ([Bol, Star Space] @ lit ''explain'') q"
    by (auto simp: allowedPatterns_def)
  then show ?thesis
    using allowed_select allowed_insert allowed_update allowed_with allowed_explain
    by cases blast+
qed

lemma not_allowed_first:
  assumes "begins_with (x # w) q"
    and "lower (of_char x) \<notin> {115, 105, 117, 119, 101 :: nat}"
  shows "\<not> isQuerySafe q"
proof
  assume "isQuerySafe q"
  from isQuerySafe_allowed [OF this] assms(1) begins_with_first [of x w q]
  have "lower (of_char x) = lower (of_char CHR ''s'') \<or>
        lower (of_char x) = lower (of_char CHR ''i'') \<or>
        lower (of_char x) = lower (of_char CHR ''u'') \<or>
        lower (of_char x) = lower (of_char CHR ''w'') \<or>
        lower (of_char x) = lower (of_char CHR ''e'')"
    by blast
  then show False using assms(2) by (auto simp: lower_def)
qed

text \<open>
  Claim C9 as stated fails: not every \<open>DELETE\<close> statement is rejected. A \<open>DELETE\<close>
  with a \<open>WHERE\<close> clause behind a \<open>WITH\<close> clause is accepted: the allowlist admits the
  prefix \<open>with\<close>, and the \<open>where\<close> on the line keeps the denylist's pattern from matching.
\<close>

theorem isQuerySafe_accepts_delete_behind_with:
  "ci_contains (js ''delete from t where'')
     (js ''WITH s AS (SELECT 1) DELETE FROM t WHERE id = 1'') \<and>
   isQuerySafe (js ''WITH s AS (SELECT 1) DELETE FROM t WHERE id = 1'')"
  by (simp add: ev ci_prefix_def lower_def)

text \<open>
  Claim C9, amended. \<open>isQuerySafe\<close> returns true only for a query that begins, after
  optional leading whitespace, with \<open>select\<close>, \<open>insert\<close>, \<open>update\<close> with a later
  \<open>where\<close>, \<open>with\<close> or \<open>explain\<close>, in any letter case. So every query that begins with
  \<open>delete\<close> is rejected, with or without a \<open>where\<close> clause, and so is one that begins
  with \<open>grant\<close> or \<open>create\<close>, whether or not a pattern of the denylist matches it.
\<close>

theorem isQuerySafe_only_allowlisted:
  "(isQuerySafe q \<longrightarrow>
      begins_with ''select'' q \<or> begins_with ''insert'' q \<or>
      (begins_with ''update'' q \<and>
         ci_contains (js ''where'') (drop 6 (dropWhile isWhiteSpace q))) \<or>
      begins_with ''with'' q \<or> begins_with ''explain'' q) \<and>
   (begins_with ''delete'' d \<longrightarrow> \<not> isQuerySafe d) \<and>
   (begins_with ''grant'' g \<longrightarrow> \<not> isQuerySafe g) \<and>
   (begins_with ''create'' c \<longrightarrow> \<not> isQuerySafe c)"
  using isQuerySafe_allowed [of q]
    not_allowed_first [of "CHR ''d''" "''elete''" d]
    not_allowed_first [of "CHR ''g''" "''rant''" g]
    not_allowed_first [of "CHR ''c''" "''reate''" c]
  by (simp add: lower_def)

theorem isQuerySafe_only_allowlisted_witness:
  "isQuerySafe (js ''  Select id From t'') \<and> begins_with ''select'' (js ''  Select id From t'') \<and>
   begins_with ''delete'' (js ''DELETE FROM t WHERE id = 1'') \<and>
   \<not> isQuerySafe (js ''DELETE FROM t WHERE id = 1'') \<and>
   begins_with ''grant'' (js ''GRANT ALL ON t TO public'') \<and>
   \<not> isQuerySafe (js ''GRANT ALL ON t TO public'') \<and>
   begins_with ''create'' (js ''CREATE TABLE t (id int)'') \<and>
   \<not> isQuerySafe (js ''CREATE TABLE t (id int)'')"
  using isQuerySafe_only_allowlisted [of "js ''  Select id From t''"
    "js ''DELETE FROM t WHERE id = 1''" "js ''GRANT ALL ON t TO public''"
    "js ''CREATE TABLE t (id int)''"]
  by (simp add: ev begins_with_def ci_prefix_def lower_def)

subsection \<open>The denylist\<close>

text \<open>
  The parts of the filter's contract that hold for every query: a query that contains
  \<open>truncate\<close> or \<open>drop table\<close> in any letter case is rejected, a query that begins with
  \<open>select\<close> and contains none of the denylist's first keywords is accepted, and the endpoint
  answers 400 exactly when the filter rejects.
\<close>

lemma contains_truncate_unsafe:
  assumes "ci_contains (js ''truncate'') q"
  shows "\<not> isQuerySafe q"
proof -
  from assms obtain n where n: "n \<le> length q" and p: "ci_prefix (js ''truncate'') (drop n q)"
    unfolding ci_contains_iff by blast
  have "\<And>b. matches (lit ''truncate'' @ []) b (drop n q)"
    by (rule lit_match [OF p]) simp
  then have "regex_test (lit ''truncate'') q"
    using regex_test_at [OF n, of "lit ''truncate''"] by simp
  then show ?thesis by (simp add: isQuerySafe_def dangerousPatterns_def)
qed

lemma contains_drop_table_unsafe:
  assumes "ci_contains (js ''drop table'') q"
  shows "\<not> isQuerySafe q"
proof -
  from assms obtain n where n: "n \<le> length q" and p: "ci_prefix (js ''drop table'') (drop n q)"
    unfolding ci_contains_iff by blast
  let ?r = "drop (length ''drop'') (drop n q)"
  have split: "js ''drop table'' = js ''drop'' @ 32 # js ''table''"
    by (simp add: js_def)
  from p have d: "ci_prefix (js ''drop'') (drop n q)"
    and sp: "ci_prefix (32 # js ''table'') (drop (length (js ''drop'')) (drop n q))"
    unfolding split ci_prefix_append by simp_all
  have len: "length (js ''drop'') = length ''drop''" by (simp add: js_def)
  from sp obtain c cs where cs: "?r = c # cs" and c: "lower c = lower 32"
    and t: "ci_prefix (js ''table'') cs"
    unfolding len by (auto simp: ci_prefix_Cons)
  from c have c32: "c = 32" by (auto simp: lower_def split: if_splits)
  have tab: "\<And>b. matches (lit ''table'' @ []) b cs"
    using t by (intro lit_match) simp_all
  have star: "\<And>b. matches (Star Space # lit ''table'') b cs"
    using tab by (intro star_skip) simp
  have "\<And>b. matches (Plus Space # lit ''table'') b ?r"
    unfolding cs using c32 star by (simp add: isWhiteSpace_def)
  then have "\<And>b. matches (lit ''drop'' @ Plus Space # lit ''table'') b (drop n q)"
    by (intro lit_match [OF d])
  then have "regex_test (lit ''drop'' @ [Plus Space] @ lit ''table'') q"
    using regex_test_at [OF n, of "lit ''drop'' @ [Plus Space] @ lit ''table''"] by simp
  then show ?thesis by (simp add: isQuerySafe_def dangerousPatterns_def)
qed

lemma plain_select_safe:
  assumes "begins_with ''select'' q"
    and "\<not> ci_contains (js ''drop'') q" and "\<not> ci_contains (js ''truncate'') q"
    and "\<not> ci_contains (js ''alter'') q" and "\<not> ci_contains (js ''delete'') q"
    and "\<not> ci_contains (js ''update'') q"
  shows "isQuerySafe q"
proof -
  have "\<not> regex_test p q" if "p \<in> set dangerousPatterns" for p
  proof
    assume m: "regex_test p q"
    from that consider
        "p = lit ''drop'' @ [Plus Space] @ lit ''table''"
      | "p = lit ''drop'' @ [Plus Space] @ lit ''database''"
      | "p = lit ''truncate'' @ []"
      | "p = lit ''alter'' @ [Plus Space] @ lit ''table'' @ [Star Dot] @ lit ''drop''"
      | "p = lit ''delete'' @ [Plus Space] @ lit ''from'' @
               [Plus Space, NotAhead ([Star Dot] @ lit ''where'')]"
      | "p = lit ''update'' @ [Plus Space, Star Dot] @ lit ''set'' @
               [Plus Space, NotAhead ([Star Dot] @ lit ''where'')]"
      by (auto simp: dangerousPatterns_def)
    then show False
      using m assms(2-6) regex_test_lit_contains by cases blast+
  qed
  then have no: "\<not> list_ex (\<lambda>pattern. regex_test pattern q) dangerousPatterns"
    by (simp add: list_ex_iff)
  have "\<And>b'. matches (lit ''select'' @ []) b' (dropWhile isWhiteSpace q)"
    using assms(1) by (intro lit_match) (simp_all add: begins_with_def)
  then have "\<And>b'. matches (lit ''select'') b' (dropWhile (atom_ok Space) q)"
    by (simp add: atom_ok.simps [abs_def])
  then have "matches (Star Space # lit ''select'') True q"
    by (rule star_intro)
  then have "regex_test ([Bol, Star Space] @ lit ''select'') q"
    by (simp add: regex_test_Bol)
  then show ?thesis using no by (simp add: isQuerySafe_def allowedPatterns_def)
qed

lemma post_database_query_400:
  "status (fst (post_database_query executeQuery query params tr)) = 400 \<longleftrightarrow>
     \<not> isQuerySafe query"
  by (simp add: post_database_query_def split: sum.splits)

text \<open>
  Claim C1. The filter is to reject every query that contains an \<open>UPDATE\<close> or \<open>DELETE\<close>
  statement without a \<open>WHERE\<close> clause. It accepts these two. In the first, a line break
  separates \<open>UPDATE users\<close> from \<open>SET\<close>, which \<open>.*\<close> does not cross, so the pattern for an
  update without \<open>where\<close> finds no match and the prefix \<open>with\<close> is allowed. In the second,
  the \<open>where\<close> of the statement that follows on the same line satisfies both the lookahead
  of the denylist and the allowlist's \<open>update.*where\<close>. Each updates every row of \<open>users\<close>.
\<close>

theorem isQuerySafe_accepts_update_without_where:
  "isQuerySafe (js (''WITH s AS (SELECT 1)'' @ [CHR 0x0A] @ ''UPDATE users'' @ [CHR 0x0A] @
                    ''SET active = false'')) \<and>
   isQuerySafe (js ''UPDATE users SET active = false; SELECT 1 WHERE true'')"
  by (simp add: ev)

section \<open>Alert delivery and de-duplication\<close>

subsection \<open>sendAlert and processAlert\<close>

lemma sendAlert_returns: "fst (sendAlert t e title d s) = Inr ()"
  by (simp add: sendAlert_def try_catch_def Let_def split: option.splits prod.splits sum.splits)

lemma sendAlert_alertHistory: "alertHistory (snd (sendAlert t e title d s)) = alertHistory s"
  by (simp add: sendAlert_def try_catch_def emit_def Let_def split: option.splits)

lemma processAlert_returns: "fst (processAlert cfg a now s) = Inr ()"
  using sendAlert_returns [of "emailTransporter cfg" "ALERT_EMAIL cfg" "alert_type a" a s]
  by (cases "sendAlert (emailTransporter cfg) (ALERT_EMAIL cfg) (alert_type a) a s")
     (simp add: processAlert_def and_then_def)

lemma processAlert_alertHistory:
  "alertHistory (snd (processAlert cfg a now s)) =
     (if recentAlert a now s = None then alertHistory (pushAlertHistory a now s)
      else alertHistory s)"
  using sendAlert_returns [of "emailTransporter cfg" "ALERT_EMAIL cfg" "alert_type a" a s]
    sendAlert_alertHistory [of "emailTransporter cfg" "ALERT_EMAIL cfg" "alert_type a" a s]
  by (cases "sendAlert (emailTransporter cfg) (ALERT_EMAIL cfg) (alert_type a) a s")
     (simp add: processAlert_def and_then_def pushAlertHistory_def Let_def)

lemma processAlerts_returns: "fst (processAlerts cfg as nows i s) = Inr ()"
proof (induction as arbitrary: i s)
  case Nil
  then show ?case by simp
next
  case (Cons a as)
  obtain s' where "processAlert cfg a (nows i) s = (Inr (), s')"
    using processAlert_returns [of cfg a "nows i" s]
    by (cases "processAlert cfg a (nows i) s") auto
  then show ?case using Cons.IH by (simp add: and_then_def)
qed

lemma processAlert_suppressed:
  assumes "h \<in> set (alertHistory s)" and "key h = alertKey a"
    and "now - timestamp h < 3600000"
  shows "processAlert cfg a now s = (Inr (), s)"
proof -
  have "recentAlert a now s \<noteq> None"
    using assms by (auto simp: recentAlert_def find_None_iff)
  then show ?thesis by (auto simp: processAlert_def)
qed

text \<open>
  Claim C7. Whatever the title, the payload and the transporter do, \<open>sendAlert\<close> returns
  normally; when the mail fails, all it leaves behind is the alert's warning and the logged
  failure. So \<open>processAlert\<close> and the loop of \<open>checkAlerts\<close> over the candidate alerts
  return normally too.
\<close>

theorem sendAlert_swallows_failure:
  "fst (sendAlert transporter alertEmail title details s) = Inr () \<and>
   (transporter = Some sendMail \<and> alertEmail \<noteq> [] \<and>
    sendMail (trace s @ [LoggerWarn (''ALERT: '' @ title)]) title details = Some e \<longrightarrow>
      trace (snd (sendAlert transporter alertEmail title details s)) =
        trace s @ [LoggerWarn (''ALERT: '' @ title),
                   LoggerError ''Failed to send alert email:'']) \<and>
   fst (processAlert cfg a now s) = Inr () \<and>
   fst (checkAlerts cfg m nows s) = Inr ()"
  using sendAlert_returns [of transporter alertEmail title details s]
    processAlert_returns [of cfg a now s]
    processAlerts_returns [of cfg "candidateAlerts cfg m" nows 0 s]
  by (auto simp: sendAlert_def try_catch_def emit_def Let_def checkAlerts_def)

theorem sendAlert_swallows_failure_witness:
  "Some (\<lambda>tr t (d :: unit). Some (Error ''ECONNREFUSED'')) = Some (\<lambda>tr t d. Some (Error ''ECONNREFUSED'')) \<and>
   ''ops@example.org'' \<noteq> [] \<and>
   trace (snd (sendAlert (Some (\<lambda>tr t d. Some (Error ''ECONNREFUSED''))) ''ops@example.org''
       ''slow_queries'' () new_MonitoringService)) =
     [LoggerWarn ''ALERT: slow_queries'', LoggerError ''Failed to send alert email:'']"
  using sendAlert_swallows_failure [of "Some (\<lambda>tr t d. Some (Error ''ECONNREFUSED''))"
      "''ops@example.org''" "''slow_queries''" "()" new_MonitoringService
      "\<lambda>tr t d. Some (Error ''ECONNREFUSED'')" "Error ''ECONNREFUSED''"]
  by (simp add: new_MonitoringService_def)

subsection \<open>The bound on the alert history\<close>

lemma slice_last_push:
  "(let h = slice_last 100 L @ [e] in if length h > 100 then slice_last 100 h else h) =
     slice_last 100 (L @ [e])"
proof (cases "length L < 100")
  case True
  then show ?thesis by (simp add: slice_last_def Let_def)
next
  case False
  then have "Suc (length L - 100) = Suc (length L) - 100" by arith
  with False show ?thesis by (simp add: slice_last_def Let_def)
qed

lemma length_slice_last: "length (slice_last n xs) = min n (length xs)"
  by (auto simp: slice_last_def)

lemma run_alertHistory:
  "alertHistory s = slice_last 100 L \<Longrightarrow>
     alertHistory (run cfg xs s) = slice_last 100 (L @ dispatched cfg xs s)"
proof (induction xs arbitrary: s L)
  case Nil
  then show ?case by simp
next
  case (Cons x xs)
  obtain a now where x: "x = (a, now)" by (cases x)
  let ?s' = "snd (processAlert cfg a now s)"
  let ?e = "\<lparr>key = alertKey a, timestamp = now, alert = a\<rparr>"
  show ?case
  proof (cases "recentAlert a now s = None")
    case True
    have "alertHistory ?s' = slice_last 100 (L @ [?e])"
      using True Cons.prems slice_last_push [of L ?e]
      by (simp add: processAlert_alertHistory pushAlertHistory_def Let_def)
    from Cons.IH [OF this] show ?thesis using True x by simp
  next
    case False
    have "alertHistory ?s' = slice_last 100 L"
      using False Cons.prems by (auto simp: processAlert_alertHistory)
    from Cons.IH [OF this] show ?thesis using False x by auto
  qed
qed

text \<open>
  Claim C8. After any sequence of \<open>processAlert\<close> executions on a new service the alert
  history is the last 100 of the entries dispatched so far, in order, so it never holds more
  than 100; one execution either leaves the history as it is (the alert is suppressed) or
  appends the new entry and, past 100, drops entries from the front.
\<close>

theorem alertHistory_bounded:
  "alertHistory (run cfg xs new_MonitoringService) =
     slice_last 100 (dispatched cfg xs new_MonitoringService) \<and>
   length (alertHistory (run cfg xs new_MonitoringService)) \<le> 100 \<and>
   alertHistory (snd (processAlert cfg a now s)) =
     (if recentAlert a now s = None
      then (let h = alertHistory s @ [\<lparr>key = alertKey a, timestamp = now, alert = a\<rparr>]
            in if length h > 100 then drop (length h - 100) h else h)
      else alertHistory s)"
proof -
  have "alertHistory new_MonitoringService = slice_last 100 []"
    by (simp add: new_MonitoringService_def slice_last_def)
  from run_alertHistory [OF this, of cfg xs]
  have h: "alertHistory (run cfg xs new_MonitoringService) =
     slice_last 100 (dispatched cfg xs new_MonitoringService)" by simp
  then have "length (alertHistory (run cfg xs new_MonitoringService)) \<le> 100"
    by (simp add: length_slice_last)
  with h show ?thesis
    by (simp add: processAlert_alertHistory pushAlertHistory_def slice_last_def Let_def)
qed

subsection \<open>The cooldown\<close>

lemma spaced_append:
  "spaced (xs @ ys) \<longleftrightarrow>
     spaced xs \<and> spaced ys \<and>
     (\<forall>e \<in> set xs. \<forall>e' \<in> set ys. key e' = key e \<longrightarrow> 3600000 \<le> timestamp e' - timestamp e)"
  by (induction xs) auto

lemma window_distinct:
  assumes "spaced M" and "\<forall>e \<in> set M. lo \<le> timestamp e \<and> timestamp e \<le> hi"
    and "hi - lo < 3600000"
  shows "distinct (map key M)"
  using assms(1,2)
proof (induction M)
  case Nil
  then show ?case by simp
next
  case (Cons e es)
  have "key e \<notin> key ` set es"
  proof
    assume "key e \<in> key ` set es"
    then obtain e' where e': "e' \<in> set es" "key e' = key e" by auto
    with Cons.prems(1) have "3600000 \<le> timestamp e' - timestamp e" by simp
    moreover have "timestamp e' \<le> hi" "lo \<le> timestamp e"
      using Cons.prems(2) e' by auto
    ultimately show False using assms(3) by arith
  qed
  with Cons show ?case by simp
qed

lemma no_recent_global:
  assumes hist: "alertHistory s = slice_last 100 L"
    and sp: "spaced L"
    and srt: "sorted (map timestamp L)"
    and le: "\<forall>e \<in> set L. timestamp e \<le> now"
    and keys: "key ` set L \<subseteq> K" and fin: "finite K" and card: "card K \<le> 100"
    and none: "recentAlert a now s = None"
  shows "\<forall>e \<in> set L. key e = alertKey a \<longrightarrow> 3600000 \<le> now - timestamp e"
proof (intro ballI impI, rule ccontr)
  fix e
  assume e: "e \<in> set L" and k: "key e = alertKey a"
    and "\<not> 3600000 \<le> now - timestamp e"
  then have recent: "now - timestamp e < 3600000" by simp
  from none have nothist: "e \<notin> set (alertHistory s)"
    using k recent by (auto simp: recentAlert_def find_None_iff)
  from e obtain xs ys where L: "L = xs @ e # ys"
    by (auto dest: split_list)
  have long: "100 \<le> length ys"
  proof (rule ccontr)
    assume "\<not> 100 \<le> length ys"
    then have "length L - 100 \<le> length xs" using L by simp
    then have "e \<in> set (drop (length L - 100) L)" using L by simp
    with nothist hist show False by (simp add: slice_last_def)
  qed
  let ?M = "e # ys"
  have "spaced ?M" using sp L by (simp add: spaced_append)
  moreover have "\<forall>x \<in> set ?M. timestamp e \<le> timestamp x \<and> timestamp x \<le> now"
    using srt le L by (auto simp: sorted_append)
  ultimately have "distinct (map key ?M)"
    using recent by (rule window_distinct)
  then have "card (set (map key ?M)) = length ?M"
    by (metis distinct_card length_map)
  moreover have "set (map key ?M) \<subseteq> K" using keys L by auto
  then have "card (set (map key ?M)) \<le> card K" using fin by (rule card_mono [rotated])
  ultimately show False using long card by simp
qed

lemma run_spaced:
  assumes "alertHistory s = slice_last 100 L" and "spaced L"
    and "sorted (map timestamp L @ map snd xs)"
    and "key ` set L \<subseteq> K" and "(\<lambda>x. alertKey (fst x)) ` set xs \<subseteq> K"
    and "finite K" and "card K \<le> 100"
  shows "spaced (L @ dispatched cfg xs s)"
  using assms(1-5)
proof (induction xs arbitrary: s L)
  case Nil
  then show ?case by simp
next
  case (Cons x xs)
  obtain a now where x: "x = (a, now)" by (cases x)
  let ?s' = "snd (processAlert cfg a now s)"
  let ?e = "\<lparr>key = alertKey a, timestamp = now, alert = a\<rparr>"
  have srtL: "sorted (map timestamp L)" and leL: "\<forall>e \<in> set L. timestamp e \<le> now"
    using Cons.prems(3) x by (auto simp: sorted_append)
  show ?case
  proof (cases "recentAlert a now s = None")
    case True
    have far: "\<forall>e \<in> set L. key e = alertKey a \<longrightarrow> 3600000 \<le> now - timestamp e"
      using no_recent_global [OF Cons.prems(1,2) srtL leL Cons.prems(4) assms(6,7) True] .
    have 1: "alertHistory ?s' = slice_last 100 (L @ [?e])"
      using True Cons.prems(1) slice_last_push [of L ?e]
      by (simp add: processAlert_alertHistory pushAlertHistory_def Let_def)
    have 2: "spaced (L @ [?e])"
      using Cons.prems(2) far by (simp add: spaced_append)
    have 3: "sorted (map timestamp (L @ [?e]) @ map snd xs)"
      using Cons.prems(3) x by simp
    have 4: "key ` set (L @ [?e]) \<subseteq> K"
      using Cons.prems(4,5) x by auto
    have 5: "(\<lambda>x. alertKey (fst x)) ` set xs \<subseteq> K"
      using Cons.prems(5) by auto
    from Cons.IH [OF 1 2 3 4 5] show ?thesis using True x by simp
  next
    case False
    have 1: "alertHistory ?s' = slice_last 100 L"
      using False Cons.prems(1) by (auto simp: processAlert_alertHistory)
    have 3: "sorted (map timestamp L @ map snd xs)"
      using Cons.prems(3) x by (auto simp: sorted_append)
    have 5: "(\<lambda>x. alertKey (fst x)) ` set xs \<subseteq> K"
      using Cons.prems(5) by auto
    from Cons.IH [OF 1 Cons.prems(2) 3 Cons.prems(4) 5] show ?thesis using False x by auto
  qed
qed

lemma dispatched_append:
  "dispatched cfg (xs @ ys) s = dispatched cfg xs s @ dispatched cfg ys (run cfg xs s)"
  by (induction xs arbitrary: s) auto

lemma set_pushAlertHistory:
  "set (alertHistory (pushAlertHistory a now s)) \<subseteq>
     insert \<lparr>key = alertKey a, timestamp = now, alert = a\<rparr> (set (alertHistory s))"
proof -
  let ?h = "alertHistory s @ [\<lparr>key = alertKey a, timestamp = now, alert = a\<rparr>]"
  have "set (slice_last 100 ?h) \<subseteq> set ?h"
    unfolding slice_last_def by (rule set_drop_subset)
  then show ?thesis by (auto simp: pushAlertHistory_def Let_def)
qed

lemma run_history_subset:
  "set (alertHistory (run cfg xs s)) \<subseteq> set (alertHistory s) \<union> set (dispatched cfg xs s)"
proof (induction xs arbitrary: s)
  case Nil
  then show ?case by simp
next
  case (Cons x xs)
  obtain a now where x: "x = (a, now)" by (cases x)
  let ?s' = "snd (processAlert cfg a now s)"
  have "set (alertHistory ?s') \<subseteq> set (alertHistory s) \<union>
      set (if recentAlert a now s = None
           then [\<lparr>key = alertKey a, timestamp = now, alert = a\<rparr>] else [])"
    using set_pushAlertHistory [of a now s] by (auto simp: processAlert_alertHistory)
  with Cons.IH [of ?s'] show ?case using x by auto
qed

lemma hourly_Suc: "hourly a (Suc n) = hourly a n @ [(a, 3600000 * int n)]"
  by (simp add: hourly_def)

lemma hourly_dispatched:
  assumes "\<forall>h \<in> set (alertHistory s). key h \<noteq> alertKey a"
  shows "dispatched cfg (hourly a n) s = map entry_of (hourly a n)"
proof (induction n)
  case 0
  then show ?case by (simp add: hourly_def)
next
  case (Suc n)
  let ?s' = "run cfg (hourly a n) s"
  have "\<not> (key h = alertKey a \<and> 3600000 * int n - timestamp h < 3600000)"
    if h: "h \<in> set (alertHistory ?s')" for h
  proof -
    from h run_history_subset [of cfg "hourly a n" s]
    have "h \<in> set (alertHistory s) \<or> h \<in> set (map entry_of (hourly a n))"
      using Suc.IH by auto
    then show ?thesis
    proof
      assume "h \<in> set (alertHistory s)"
      with assms show ?thesis by simp
    next
      assume "h \<in> set (map entry_of (hourly a n))"
      then obtain k where "k < n" "timestamp h = 3600000 * int k"
        by (auto simp: hourly_def entry_of_def)
      then show ?thesis by simp
    qed
  qed
  then have "recentAlert a (3600000 * int n) ?s' = None"
    unfolding recentAlert_def find_None_iff by blast
  then show ?case
    using Suc.IH by (simp add: hourly_Suc dispatched_append entry_of_def)
qed

lemma candidateAlerts_isCandidate: "a \<in> set (candidateAlerts cfg m) \<Longrightarrow> isCandidate a"
  by (auto simp: candidateAlerts_def isCandidate_def candidateKinds_def Let_def
      split: if_splits)

lemma candidateAlerts_sample:
  "candidateAlerts default_config (snapshot 95) = [connection_alert, slow_alert]"
  by (simp add: candidateAlerts_def default_config_def snapshot_def connection_alert_def
      slow_alert_def Let_def)

text \<open>
  Claim C2 as stated fails when the clock is set back. Both alerts are candidates of
  \<open>checkAlerts\<close>. The connection alert is dispatched at clock reading 0; the slow-query
  alert is then dispatched a hundred times, an hour apart, which pushes the connection
  alert's entry out of the history of 100; the clock is set back, and the connection alert
  is dispatched again at reading 1.
\<close>

theorem cooldown_clock_counterexample:
  "candidateAlerts default_config (snapshot 95) = [connection_alert, slow_alert] \<and>
   \<lparr>key = ''high_connection_usage_warning'', timestamp = 0, alert = connection_alert\<rparr>
     \<in> set (dispatched default_config clock_set_back new_MonitoringService) \<and>
   \<lparr>key = ''high_connection_usage_warning'', timestamp = 1, alert = connection_alert\<rparr>
     \<in> set (dispatched default_config clock_set_back new_MonitoringService)"
proof -
  let ?cfg = default_config
  let ?e0 = "\<lparr>key = ''high_connection_usage_warning'', timestamp = 0, alert = connection_alert\<rparr>"
  let ?e1 = "\<lparr>key = ''high_connection_usage_warning'', timestamp = 1, alert = connection_alert\<rparr>"
  let ?s1 = "snd (processAlert ?cfg connection_alert 0 new_MonitoringService)"
  let ?bs = "hourly slow_alert 100"
  have kc: "alertKey connection_alert = ''high_connection_usage_warning''"
    by (simp add: alertKey_def connection_alert_def)
  have ks: "alertKey slow_alert = ''slow_queries_warning''"
    by (simp add: alertKey_def slow_alert_def)
  have none0: "recentAlert connection_alert 0 new_MonitoringService = None"
    by (simp add: recentAlert_def new_MonitoringService_def)
  have h1: "alertHistory ?s1 = [?e0]"
    using none0
    by (simp add: processAlert_alertHistory pushAlertHistory_def new_MonitoringService_def kc
        Let_def)
  have bs: "dispatched ?cfg ?bs ?s1 = map entry_of ?bs"
    by (rule hourly_dispatched) (simp add: h1 ks)
  have "alertHistory ?s1 = slice_last 100 [?e0]"
    by (simp add: h1 slice_last_def)
  from run_alertHistory [OF this, of ?cfg ?bs]
  have "alertHistory (run ?cfg ?bs ?s1) = slice_last 100 (?e0 # map entry_of ?bs)"
    by (simp add: bs)
  also have "\<dots> = map entry_of ?bs"
    by (simp add: slice_last_def hourly_def)
  finally have h2: "alertHistory (run ?cfg ?bs ?s1) = map entry_of ?bs" .
  have "\<forall>h \<in> set (alertHistory (run ?cfg ?bs ?s1)). key h \<noteq> alertKey connection_alert"
    unfolding h2 by (auto simp: hourly_def entry_of_def kc ks)
  then have none1: "recentAlert connection_alert 1 (run ?cfg ?bs ?s1) = None"
    unfolding recentAlert_def find_None_iff by blast
  have "dispatched ?cfg clock_set_back new_MonitoringService =
      ?e0 # map entry_of ?bs @ [?e1]"
    unfolding clock_set_back_def
    using none0 none1 by (simp add: dispatched_append bs kc)
  then show ?thesis by (simp add: candidateAlerts_sample)
qed

text \<open>
  Claim C2, amended. When the clock readings of a sequence of \<open>processAlert\<close> executions
  on a new service do not decrease and the alerts are candidates of \<open>checkAlerts\<close>, two
  dispatches of one key are never less than 3600000 milliseconds apart; and in any state an
  alert whose key is that of a history entry less than 3600000 milliseconds old is
  suppressed and changes nothing, whatever its value.
\<close>

theorem cooldown_for_candidates:
  assumes "sorted (map snd xs)"
    and "\<forall>x \<in> set xs. isCandidate (fst x)"
  shows "spaced (dispatched cfg xs new_MonitoringService) \<and>
    (\<forall>s a now. (\<exists>h \<in> set (alertHistory s). key h = alertKey a \<and> now - timestamp h < 3600000)
        \<longrightarrow> processAlert cfg a now s = (Inr (), s))"
proof -
  let ?K = "set (map (\<lambda>kind. fst kind @ ''_'' @ snd kind) candidateKinds)"
  have "card ?K \<le> length (map (\<lambda>kind. fst kind @ ''_'' @ snd kind) candidateKinds)"
    by (rule card_length)
  then have card: "card ?K \<le> 100" by (simp add: candidateKinds_def)
  have keys: "(\<lambda>x. alertKey (fst x)) ` set xs \<subseteq> ?K"
    using assms(2) by (force simp: isCandidate_def alertKey_def)
  have "spaced ([] @ dispatched cfg xs new_MonitoringService)"
    using assms(1) keys card
    by (intro run_spaced [where K = ?K]) (auto simp: new_MonitoringService_def slice_last_def)
  then show ?thesis using processAlert_suppressed by auto
qed

theorem cooldown_for_candidates_witness:
  "sorted (map snd candidate_sequence) \<and>
   list_all isCandidate (map fst candidate_sequence) \<and>
   spaced (dispatched default_config candidate_sequence new_MonitoringService) \<and>
   map timestamp (dispatched default_config candidate_sequence new_MonitoringService) =
     [0, 2000, 3600000]"
  using cooldown_for_candidates [of candidate_sequence default_config]
  by (simp add: candidate_sequence_def connection_alert_def slow_alert_def isCandidate_def
      candidateKinds_def alertKey_def default_config_def
      new_MonitoringService_def recentAlert_def processAlert_def sendAlert_def and_then_def
      emit_def pushAlertHistory_def Let_def)

subsection \<open>Three snapshots\<close>

lemma sendAlert_alertsSent:
  "alertsSent t (snd (sendAlert tr e title d s)) =
     alertsSent t s + (if t = title then 1 else 0)"
  by (simp add: sendAlert_def alertsSent_def try_catch_def emit_def Let_def
      split: option.splits)

lemma processAlert_alertsSent:
  "alertsSent t (snd (processAlert cfg a now s)) =
     alertsSent t s + (if recentAlert a now s = None \<and> t = alert_type a then 1 else 0)"
proof -
  obtain s' where s': "sendAlert (emailTransporter cfg) (ALERT_EMAIL cfg) (alert_type a) a s =
      (Inr (), s')"
    using sendAlert_returns [of "emailTransporter cfg" "ALERT_EMAIL cfg" "alert_type a" a s]
    by (cases "sendAlert (emailTransporter cfg) (ALERT_EMAIL cfg) (alert_type a) a s") auto
  have "alertsSent t s' = alertsSent t s + (if t = alert_type a then 1 else 0)"
    using sendAlert_alertsSent [of t "emailTransporter cfg" "ALERT_EMAIL cfg" "alert_type a" a s]
      s' by simp
  then show ?thesis
    using s' by (auto simp: processAlert_def and_then_def pushAlertHistory_def alertsSent_def Let_def)
qed

lemma processAlert_unrelated:
  assumes "unrelated a" and "length (alertHistory s) < 100"
  shows "alertsSent ''high_connection_usage'' (snd (processAlert cfg a now s)) =
           alertsSent ''high_connection_usage'' s"
    and "connEntries (snd (processAlert cfg a now s)) = connEntries s"
    and "length (alertHistory (snd (processAlert cfg a now s))) \<le> Suc (length (alertHistory s))"
  using assms
  by (auto simp: processAlert_alertsSent processAlert_alertHistory unrelated_def
      connEntries_def pushAlertHistory_def Let_def)

lemma processAlerts_unrelated:
  assumes "\<forall>a \<in> set as. unrelated a" and "length (alertHistory s) + length as \<le> 100"
  shows "alertsSent ''high_connection_usage'' (snd (processAlerts cfg as nows i s)) =
           alertsSent ''high_connection_usage'' s \<and>
         connEntries (snd (processAlerts cfg as nows i s)) = connEntries s \<and>
         length (alertHistory (snd (processAlerts cfg as nows i s))) \<le>
           length (alertHistory s) + length as"
  using assms
proof (induction as arbitrary: i s)
  case Nil
  then show ?case by simp
next
  case (Cons a as)
  obtain s' where s': "processAlert cfg a (nows i) s = (Inr (), s')"
    using processAlert_returns [of cfg a "nows i" s]
    by (cases "processAlert cfg a (nows i) s") auto
  have a: "unrelated a" and lt: "length (alertHistory s) < 100"
    using Cons.prems by auto
  from processAlert_unrelated [OF a lt, of cfg "nows i"] s'
  have 1: "alertsSent ''high_connection_usage'' s' = alertsSent ''high_connection_usage'' s"
    and 2: "connEntries s' = connEntries s"
    and 3: "length (alertHistory s') \<le> Suc (length (alertHistory s))"
    by simp_all
  have "\<forall>a \<in> set as. unrelated a" and "length (alertHistory s') + length as \<le> 100"
    using Cons.prems 3 by auto
  from Cons.IH [OF this, of "Suc i"] 1 2 3 s' show ?case
    by (simp add: and_then_def)
qed

lemma candidate_low:
  assumes "\<not> connectionUsage m > of_int (maxConnections (thresholds cfg))"
  shows "(\<forall>a \<in> set (candidateAlerts cfg m). unrelated a) \<and> length (candidateAlerts cfg m) \<le> 2"
  using assms
  by (simp add: candidateAlerts_def connectionUsage_def Let_def unrelated_def alertKey_def
      connKey_def)

lemma candidate_high:
  assumes "connectionUsage m > of_int (maxConnections (thresholds cfg))"
  shows "\<exists>c rest. candidateAlerts cfg m = c # rest \<and> alert_type c = ''high_connection_usage'' \<and>
           alertKey c = connKey \<and> (\<forall>a \<in> set rest. unrelated a) \<and> length rest \<le> 2"
  using assms
  by (simp add: candidateAlerts_def connectionUsage_def Let_def unrelated_def alertKey_def
      connKey_def)

lemma checkAlerts_low:
  assumes "\<not> connectionUsage m > of_int (maxConnections (thresholds cfg))"
    and "length (alertHistory s) \<le> 98"
  shows "alertsSent ''high_connection_usage'' (snd (checkAlerts cfg m nows s)) =
           alertsSent ''high_connection_usage'' s \<and>
         connEntries (snd (checkAlerts cfg m nows s)) = connEntries s \<and>
         length (alertHistory (snd (checkAlerts cfg m nows s))) \<le> length (alertHistory s) + 2"
proof -
  from candidate_low [OF assms(1)]
  have u: "\<forall>a \<in> set (candidateAlerts cfg m). unrelated a"
    and l: "length (candidateAlerts cfg m) \<le> 2" by simp_all
  from l assms(2) have "length (alertHistory s) + length (candidateAlerts cfg m) \<le> 100" by simp
  from processAlerts_unrelated [OF u this, of cfg nows 0] l show ?thesis
    by (simp add: checkAlerts_def)
qed

lemma checkAlerts_high:
  assumes "connectionUsage m > of_int (maxConnections (thresholds cfg))"
    and "length (alertHistory s) \<le> 97"
  shows "\<exists>c. hd (candidateAlerts cfg m) = c \<and> alert_type c = ''high_connection_usage'' \<and>
           alertKey c = connKey \<and>
           alertsSent ''high_connection_usage'' (snd (checkAlerts cfg m nows s)) =
             alertsSent ''high_connection_usage'' s +
               (if recentAlert c (nows 0) s = None then 1 else 0) \<and>
           connEntries (snd (checkAlerts cfg m nows s)) =
             connEntries s @
               (if recentAlert c (nows 0) s = None
                then [\<lparr>key = connKey, timestamp = nows 0, alert = c\<rparr>] else []) \<and>
           length (alertHistory (snd (checkAlerts cfg m nows s))) \<le> length (alertHistory s) + 3"
proof -
  from candidate_high [OF assms(1)] obtain c rest where
    cs: "candidateAlerts cfg m = c # rest" and t: "alert_type c = ''high_connection_usage''"
    and k: "alertKey c = connKey" and u: "\<forall>a \<in> set rest. unrelated a"
    and l: "length rest \<le> 2" by blast
  obtain s' where s': "processAlert cfg c (nows 0) s = (Inr (), s')"
    using processAlert_returns [of cfg c "nows 0" s]
    by (cases "processAlert cfg c (nows 0) s") auto
  have sent: "alertsSent ''high_connection_usage'' s' =
      alertsSent ''high_connection_usage'' s + (if recentAlert c (nows 0) s = None then 1 else 0)"
    using processAlert_alertsSent [of "''high_connection_usage''" cfg c "nows 0" s] s' t
    by simp
  have hist: "alertHistory s' =
      (if recentAlert c (nows 0) s = None
       then alertHistory s @ [\<lparr>key = connKey, timestamp = nows 0, alert = c\<rparr>]
       else alertHistory s)"
    using processAlert_alertHistory [of cfg c "nows 0" s] s' k assms(2)
    by (simp add: pushAlertHistory_def Let_def)
  then have len: "length (alertHistory s') \<le> Suc (length (alertHistory s))" by simp
  have ent: "connEntries s' = connEntries s @
      (if recentAlert c (nows 0) s = None
       then [\<lparr>key = connKey, timestamp = nows 0, alert = c\<rparr>] else [])"
    using hist by (simp add: connEntries_def)
  have "length (alertHistory s') + length rest \<le> 100" using len l assms(2) by simp
  from processAlerts_unrelated [OF u this, of cfg nows "Suc 0"] sent ent len l cs t k s'
  show ?thesis
    by (simp add: checkAlerts_def and_then_def)
qed

text \<open>
  Claim C3. A new service with the threshold 80 evaluates three snapshots with 10, 95 and
  95 active connections, whatever their other columns; the connection alert of the third
  evaluation is processed less than an hour after that of the second. Then no
  \<open>high_connection_usage\<close> alert has been sent after the first evaluation, exactly one after
  the second and still exactly one after the third, whose first candidate is the
  connection alert and finds a recent entry.
\<close>

theorem three_snapshots_one_alert:
  assumes th: "maxConnections (thresholds cfg) = 80"
    and m1: "active_connections (connections m1) = 10"
    and m2: "active_connections (connections m2) = 95"
    and m3: "active_connections (connections m3) = 95"
    and hour: "nows3 0 - nows2 0 < 3600000"
  shows "alertsSent ''high_connection_usage'' (tick cfg m1 nows1 new_MonitoringService) = 0 \<and>
    alertsSent ''high_connection_usage''
      (tick cfg m2 nows2 (tick cfg m1 nows1 new_MonitoringService)) = 1 \<and>
    alertsSent ''high_connection_usage''
      (tick cfg m3 nows3 (tick cfg m2 nows2 (tick cfg m1 nows1 new_MonitoringService))) = 1 \<and>
    alert_type (hd (candidateAlerts cfg m3)) = ''high_connection_usage'' \<and>
    recentAlert (hd (candidateAlerts cfg m3)) (nows3 0)
      (tick cfg m2 nows2 (tick cfg m1 nows1 new_MonitoringService)) \<noteq> None"
proof -
  let ?s0 = new_MonitoringService
  let ?s1 = "tick cfg m1 nows1 ?s0"
  let ?s2 = "tick cfg m2 nows2 ?s1"
  let ?s3 = "tick cfg m3 nows3 ?s2"
  have low: "\<not> connectionUsage m1 > of_int (maxConnections (thresholds cfg))"
    using th m1 by (simp add: connectionUsage_def)
  have high2: "connectionUsage m2 > of_int (maxConnections (thresholds cfg))"
    using th m2 by (simp add: connectionUsage_def)
  have high3: "connectionUsage m3 > of_int (maxConnections (thresholds cfg))"
    using th m3 by (simp add: connectionUsage_def)
  have s0: "alertsSent ''high_connection_usage'' ?s0 = 0" "connEntries ?s0 = []"
    "length (alertHistory ?s0) = 0"
    by (simp_all add: new_MonitoringService_def alertsSent_def connEntries_def)
  from checkAlerts_low [OF low, of ?s0 nows1] s0
  have s1: "alertsSent ''high_connection_usage'' ?s1 = 0" "connEntries ?s1 = []"
    "length (alertHistory ?s1) \<le> 2"
    by (simp_all add: tick_def)
  have l1: "length (alertHistory ?s1) \<le> 97" using s1(3) by simp
  from checkAlerts_high [OF high2 l1, of nows2] obtain c2 where
    c2: "alertKey c2 = connKey"
    and sent2: "alertsSent ''high_connection_usage'' ?s2 =
      alertsSent ''high_connection_usage'' ?s1 +
        (if recentAlert c2 (nows2 0) ?s1 = None then 1 else 0)"
    and ent2: "connEntries ?s2 = connEntries ?s1 @
      (if recentAlert c2 (nows2 0) ?s1 = None
       then [\<lparr>key = connKey, timestamp = nows2 0, alert = c2\<rparr>] else [])"
    and len2: "length (alertHistory ?s2) \<le> length (alertHistory ?s1) + 3"
    unfolding tick_def by blast
  have "\<forall>h \<in> set (alertHistory ?s1). key h \<noteq> connKey"
    using s1(2) by (simp add: connEntries_def filter_empty_conv)
  then have none2: "recentAlert c2 (nows2 0) ?s1 = None"
    unfolding recentAlert_def find_None_iff c2 by blast
  have s2: "alertsSent ''high_connection_usage'' ?s2 = 1"
    using sent2 none2 s1(1) by simp
  have e2: "connEntries ?s2 = [\<lparr>key = connKey, timestamp = nows2 0, alert = c2\<rparr>]"
    using ent2 none2 s1(2) by simp
  have l2: "length (alertHistory ?s2) \<le> 97" using len2 s1(3) by simp
  from checkAlerts_high [OF high3 l2, of nows3] obtain c3 where
    c3: "hd (candidateAlerts cfg m3) = c3" "alert_type c3 = ''high_connection_usage''"
      "alertKey c3 = connKey"
    and sent3: "alertsSent ''high_connection_usage'' ?s3 =
      alertsSent ''high_connection_usage'' ?s2 +
        (if recentAlert c3 (nows3 0) ?s2 = None then 1 else 0)"
    unfolding tick_def by blast
  have "\<lparr>key = connKey, timestamp = nows2 0, alert = c2\<rparr> \<in> set (connEntries ?s2)"
    using e2 by simp
  then have "\<lparr>key = connKey, timestamp = nows2 0, alert = c2\<rparr> \<in> set (alertHistory ?s2)"
    by (simp add: connEntries_def)
  then have some3: "recentAlert c3 (nows3 0) ?s2 \<noteq> None"
    unfolding recentAlert_def find_None_iff c3 using hour by force
  have s3: "alertsSent ''high_connection_usage'' ?s3 = 1"
    using sent3 some3 s2 by simp
  show ?thesis using s1(1) s2 s3 c3 some3 by simp
qed

theorem three_snapshots_one_alert_witness:
  "maxConnections (thresholds default_config) = 80 \<and>
   active_connections (connections (snapshot 10)) = 10 \<and>
   active_connections (connections (snapshot 95)) = 95 \<and>
   (\<lambda>i. 120000 + int i) 0 - (\<lambda>i. 60000 + int i) 0 < (3600000 :: int) \<and>
   alertsSent ''high_connection_usage''
     (tick default_config (snapshot 95) (\<lambda>i. 120000 + int i)
       (tick default_config (snapshot 95) (\<lambda>i. 60000 + int i)
         (tick default_config (snapshot 10) (\<lambda>i. int i) new_MonitoringService))) = 1"
  using three_snapshots_one_alert [of default_config "snapshot 10" "snapshot 95" "snapshot 95"
      "\<lambda>i. 120000 + int i" "\<lambda>i. 60000 + int i" "\<lambda>i. int i"]
  by (simp add: default_config_def snapshot_def)

section \<open>Metrics collection\<close>

text \<open>
  Claim C4. On a stored history \<open>h\<close>, \<open>storeMetrics\<close> writes \<open>h\<close> with the snapshot
  appended, cut from the front to its last 1000 entries: the result has
  \<open>min 1000 (length h + 1)\<close> entries, ends with the new snapshot and keeps the order. A file
  that cannot be read counts as the empty history, and no error escapes.
\<close>

theorem storeMetrics_bounded_fifo:
  "metricsFile (snd (storeMetrics True left m (s\<lparr>metricsFile := Array h\<rparr>))) =
     Array (drop (Suc (length h) - 1000) (h @ [m])) \<and>
   length (drop (Suc (length h) - 1000) (h @ [m])) = min 1000 (Suc (length h)) \<and>
   metricsFile (snd (storeMetrics True left m (s\<lparr>metricsFile := Unreadable\<rparr>))) = Array [m] \<and>
   fst (storeMetrics writeOk left m s) = Inr ()"
  by (auto simp: storeMetrics_def try_catch_def emit_def slice_last_def Let_def
      split: stored.splits)

text \<open>
  Claim C6. When a client is obtained and one of the four catalog queries fails,
  \<open>collectMetrics\<close> returns normally; the error counter is one higher; the trace shows the
  queries up to the failing one, each once, then the logged error and the release of the
  client; nothing else of the state changes.
\<close>

theorem collectMetrics_query_failure:
  assumes "connectResult db = None"
    and "isl (connectionResult db) \<or> isl (performanceResult db) \<or> isl (sizeResult db) \<or>
         isl (lockResult db)"
  shows "collectMetrics cfg db writeOk left now nows s =
     (Inr (),
      s\<lparr>errors := errors s + 1,
        trace := trace s @ Connect # map Query (issued db) @
                   [LoggerError ''Error collecting metrics:'', Release]\<rparr>)"
  using assms
  by (cases "connectionResult db"; cases "performanceResult db"; cases "sizeResult db";
      cases "lockResult db")
     (simp_all add: collectMetrics_def try_finally_def try_catch_def and_then_def
       client_query_def emit_def issued_def)

theorem collectMetrics_query_failure_witness:
  "connectResult statements_missing = None \<and>
   isl (performanceResult statements_missing) \<and>
   collectMetrics default_config statements_missing True Unreadable 1700000000000
       (\<lambda>i. 1700000000000) new_MonitoringService =
     (Inr (),
      new_MonitoringService
        \<lparr>errors := 1,
         trace := [Connect, Query ''pg_stat_activity'', Query ''pg_stat_statements'',
                   LoggerError ''Error collecting metrics:'', Release]\<rparr>)"
  using collectMetrics_query_failure [of statements_missing default_config True Unreadable
      1700000000000 "\<lambda>i. 1700000000000" new_MonitoringService]
  by (simp add: statements_missing_def issued_def new_MonitoringService_def)

section \<open>Restoring a backup\<close>

lemma posix_extname_gz:
  "posix_extname (compressedPath p) =
     (if takeWhile (\<lambda>c. c \<noteq> CHR ''/'') (rev p) = [] then [] else ''.gz'')"
  by (simp add: posix_extname_def compressedPath_def Let_def)

lemma restoreBackup_unsupported:
  assumes "extname backupPath \<noteq> ''.sql''" and "extname backupPath \<noteq> ''.zip''"
  shows "restoreBackup extname env psql backupPath tr =
           (Inl (Error ''Unsupported backup file format''), tr)"
  using assms by (simp add: restoreBackup_def and_then_def Let_def)

lemma restoreBackup_sql_spawns:
  assumes "extname backupPath = ''.sql''"
  shows "\<exists>args. Spawn ''psql'' args \<in> set (snd (restoreBackup extname env psql backupPath tr))"
  using assms
  by (cases psql)
     (auto simp: restoreBackup_def restoreSQLBackup_def spawn_tool_def and_then_def Let_def)

lemma restoreBackup_zip:
  assumes "extname backupPath = ''.zip''"
  shows "restoreBackup extname env psql backupPath tr =
           (Inl (Error ''CSV restore not implemented yet''), tr)"
  using assms by (simp add: restoreBackup_def restoreCSVBackup_def and_then_def Let_def)

text \<open>
  Claim C10. \<open>restoreBackup\<close> throws \<open>Unsupported backup file format\<close>, with nothing
  spawned and nothing logged, whenever the extension is neither \<open>.sql\<close> nor \<open>.zip\<close>; it does
  anything else only for these two. The name \<open>compressBackup\<close> gives a compressed backup ends
  in \<open>.gz\<close>, so such a file is refused.
\<close>

theorem restoreBackup_extension_gate:
  "(extname backupPath \<noteq> ''.sql'' \<and> extname backupPath \<noteq> ''.zip'' \<longrightarrow>
      restoreBackup extname env psql backupPath tr =
        (Inl (Error ''Unsupported backup file format''), tr)) \<and>
   (restoreBackup extname env psql backupPath tr \<noteq>
        (Inl (Error ''Unsupported backup file format''), tr) \<longrightarrow>
      extname backupPath = ''.sql'' \<or> extname backupPath = ''.zip'') \<and>
   restoreBackup posix_extname env psql (compressedPath p) tr =
     (Inl (Error ''Unsupported backup file format''), tr)"
  using restoreBackup_unsupported [of extname backupPath env psql tr]
    restoreBackup_unsupported [of posix_extname "compressedPath p" env psql tr]
  by (auto simp: posix_extname_gz)

theorem restoreBackup_extension_gate_witness:
  "posix_extname ''/backup/backup-2024-01-01.sql.gz'' = ''.gz'' \<and>
   restoreBackup posix_extname no_env (Closed [] 0) ''/backup/backup-2024-01-01.sql.gz'' [] =
     (Inl (Error ''Unsupported backup file format''), []) \<and>
   restoreBackup posix_extname no_env (Closed [] 0) ''/backup/backup-2024-01-01.sql'' [] \<noteq>
     (Inl (Error ''Unsupported backup file format''), []) \<and>
   posix_extname ''/backup/backup-2024-01-01.sql'' = ''.sql''"
  using restoreBackup_extension_gate [of posix_extname "''/backup/backup-2024-01-01.sql.gz''"
      no_env "Closed [] 0" "[]"]
    restoreBackup_extension_gate [of posix_extname "''/backup/backup-2024-01-01.sql''"
      no_env "Closed [] 0" "[]"]
  by (simp add: posix_extname_def restoreBackup_def restoreSQLBackup_def spawn_tool_def
      and_then_def Let_def)

text \<open>
  The restore tool validates the selected file before anything else: when the file is
  empty it exits with code 1, having created no restore point, asked nothing, and spawned
  nothing.
\<close>

lemma restore_main_rejects_empty_file:
  assumes "selectBackupFile opts w (tr @ [Console ''Ghibli Food Database Restore Tool'']) =
             (Inr backupPath, tr1)"
    and "files w backupPath = Some st" and "size_bytes st = 0"
  shows "restore_main opts w tr =
           (Inl (ProcessExit 1),
            tr1 @ [Console ''Validating backup file...'', Console ''Backup file is empty''])"
  using assms
  by (simp add: restore_main_def catch_thrown_def and_then_def validateBackup_def Let_def)

text \<open>
  Claim C5. Every entry point is to refuse an empty backup file before anything runs. The
  endpoint \<open>POST /api/database/restore\<close> calls \<open>restoreBackup\<close>, which never looks at the
  file: for an empty \<open>.sql\<close> file it spawns \<open>psql\<close> on it and, \<open>psql\<close> ending with code 0,
  answers that the database was restored.
\<close>

theorem restore_endpoint_runs_psql_on_empty_file:
  "post_database_restore posix_extname no_env (Closed [] 0) ''/backup/empty.sql'' [] =
     (Response 200 (Success ''Database restored successfully''),
      [Spawn ''psql'' [''-h'', ''localhost'', ''-p'', ''5432'', ''-U'', ''postgres'',
                       ''-d'', ''ghibli_food_db'', ''--no-password'', ''-f'',
                       ''/backup/empty.sql''],
       LoggerInfo ''Backup restored from: /backup/empty.sql''])"
  by (simp add: post_database_restore_def restoreBackup_def restoreSQLBackup_def spawn_tool_def
      and_then_def posix_extname_def no_env_def or_default_def Let_def)

end
